theory Spec2Isabelle
  imports Main "HOL-Library.Multiset"
begin

section \<open>Strings\<close>

text \<open>
  A JavaScript string is a sequence of code units; the model uses \<open>string\<close>, whose
  characters are the code units below 256. ECMAScript's white space and line
  terminators in that range are U+0009 to U+000D, U+0020 and U+00A0: the set
  that \<open>String.prototype.trim\<close>, \<open>\s\<close> in a regular expression and the prefix
  skipped by \<open>parseInt\<close> all use.
\<close>

definition isWhiteSpace :: "char \<Rightarrow> bool" where
  "isWhiteSpace c = (c \<in> set [CHR 0x09, CHR 0x0A, CHR 0x0B, CHR 0x0C, CHR 0x0D, CHR 0x20, CHR 0xA0])"

definition trimStart :: "string \<Rightarrow> string" where
  "trimStart s = dropWhile isWhiteSpace s"

definition trimEnd :: "string \<Rightarrow> string" where
  "trimEnd s = rev (dropWhile isWhiteSpace (rev s))"

definition trim :: "string \<Rightarrow> string" where
  "trim s = trimEnd (trimStart s)"

text \<open>
  \<open>toLowerCase\<close> on code units below 256: the ASCII capitals and the Latin-1
  capitals U+00C0 to U+00DE (U+00D7, the multiplication sign, apart) move up by 32.
\<close>

definition lowerChar :: "char \<Rightarrow> char" where
  "lowerChar c =
     (let k = (of_char c :: nat)
      in if (65 \<le> k \<and> k \<le> 90) \<or> (192 \<le> k \<and> k \<le> 222 \<and> k \<noteq> 215)
         then char_of (k + 32) else c)"

definition toLowerCase :: "string \<Rightarrow> string" where
  "toLowerCase s = map lowerChar s"

fun startsWith :: "string \<Rightarrow> string \<Rightarrow> bool" where
  "startsWith s [] = True"
| "startsWith [] (p # ps) = False"
| "startsWith (c # cs) (p # ps) = (c = p \<and> startsWith cs ps)"

fun str_includes :: "string \<Rightarrow> string \<Rightarrow> bool" where
  "str_includes [] t = (t = [])"
| "str_includes (c # cs) t = (startsWith (c # cs) t \<or> str_includes cs t)"

text \<open>
  \<open>s.split(/\s+/)\<close>: the pieces between the maximal runs of white space, the
  empty piece before a leading run and after a trailing run included.
\<close>

function split_ws :: "string \<Rightarrow> string list" where
  "split_ws s =
     (let piece = takeWhile (\<lambda>c. \<not> isWhiteSpace c) s;
          rest = dropWhile (\<lambda>c. \<not> isWhiteSpace c) s
      in if rest = [] then [piece] else piece # split_ws (dropWhile isWhiteSpace rest))"
  by pat_completeness auto
termination
proof (relation "measure length")
  show "wf (measure length)" by simp
next
  fix s :: string and piece rest
  assume r: "rest = dropWhile (\<lambda>c. \<not> isWhiteSpace c) s" and ne: "rest \<noteq> []"
  from ne obtain c cs where rc: "rest = c # cs" by (cases rest) auto
  have "isWhiteSpace c" using r rc hd_dropWhile [of "\<lambda>c. \<not> isWhiteSpace c" s] by force
  then have "length (dropWhile isWhiteSpace rest) \<le> length cs"
    using rc by (simp add: length_dropWhile_le)
  also have "length cs < length rest" using rc by simp
  also have "length rest \<le> length s" using r by (simp add: length_dropWhile_le)
  finally show "(dropWhile isWhiteSpace rest, s) \<in> measure length" by simp
qed

declare split_ws.simps [simp del]

text \<open>The decimal numeral of a natural number, as a template literal prints a counter.\<close>

fun show_nat :: "nat \<Rightarrow> string" where
  "show_nat n = (if n < 10 then [char_of (48 + n)] else show_nat (n div 10) @ [char_of (48 + n mod 10)])"

declare show_nat.simps [simp del]

section \<open>JSON values\<close>

text \<open>
  The data payload of a node is a plain JavaScript object built by assignments;
  the model keeps it as a JSON value whose objects list their fields in
  insertion order. The only number the compiler stores is the result of
  \<open>parseInt\<close>: a JavaScript number (a double) that is an integer, an infinity or
  \<open>NaN\<close>. \<open>Num 0\<close> stands for both zeros.
\<close>

datatype number = Num int | Infinity | MinusInfinity | NaN

datatype json =
    JStr string
  | JNum number
  | JBool bool
  | JArr "json list"
  | JObj "(string \<times> json) list"

text \<open>\<open>obj.k = x\<close>: an existing field keeps its place, a new one goes last.\<close>

fun set_prop :: "('k \<times> 'v) list \<Rightarrow> 'k \<Rightarrow> 'v \<Rightarrow> ('k \<times> 'v) list" where
  "set_prop [] k x = [(k, x)]"
| "set_prop ((k', y) # fs) k x = (if k' = k then (k, x) # fs else (k', y) # set_prop fs k x)"

text \<open>\<open>Object.assign(obj, src)\<close>.\<close>

fun assign :: "('k \<times> 'v) list \<Rightarrow> ('k \<times> 'v) list \<Rightarrow> ('k \<times> 'v) list" where
  "assign obj [] = obj"
| "assign obj ((k, x) # src) = assign (set_prop obj k x) src"

definition get_prop :: "(string \<times> json) list \<Rightarrow> string \<Rightarrow> json option" where
  "get_prop obj k = map_of obj k"

section \<open>The parsed document\<close>

text \<open>
  \<open>htmlparser2.parseDocument\<close> is a library outside the repository; the compiler
  is modelled from its result on. An \<open>Element\<close> has a name, its attribute
  object (\<open>attribs\<close>, given as its entries in \<open>Object.entries\<close> order) and its
  children; a \<open>Text\<close> has its data; every other kind of node (comment,
  directive, CDATA) is \<open>OtherNode\<close>.
\<close>

datatype DomNode =
    Element (name: string) (attribs: "(string \<times> string) list") (children: "DomNode list")
  | Text (data: string)
  | OtherNode

text \<open>\<open>element.attribs[k]\<close>, \<open>None\<close> for \<open>undefined\<close>.\<close>

definition attr :: "(string \<times> string) list \<Rightarrow> string \<Rightarrow> string option" where
  "attr as k = map_of as k"

text \<open>\<open>x || d\<close> on an optional string: \<open>undefined\<close> and the empty string are falsy.\<close>

definition or_else :: "string option \<Rightarrow> string \<Rightarrow> string" where
  "or_else x d = (case x of None \<Rightarrow> d | Some s \<Rightarrow> if s = [] then d else s)"

text \<open>\<open>x || y || d\<close>.\<close>

definition or_else2 :: "string option \<Rightarrow> string option \<Rightarrow> string \<Rightarrow> string" where
  "or_else2 x y d = (case x of None \<Rightarrow> or_else y d | Some s \<Rightarrow> if s = [] then or_else y d else s)"

text \<open>
  \<open>parseInt(x)\<close> with no radix: leading white space is skipped, then a sign, then
  \<open>0x\<close> or \<open>0X\<close> selects radix 16 (radix 10 otherwise), and the longest prefix of
  digits is read; with no digit the result is \<open>NaN\<close>. An \<open>undefined\<close> argument is the string
  \<open>undefined\<close>, which has no digit. The result is the Number value of the
  integer read: the nearest double, the even one of two that are equally near,
  and an infinity from \<open>2 ^ 1024 - 2 ^ 970\<close> on. (ECMAScript lets an
  implementation replace the decimal digits after the 20th by zeros; V8 rounds
  the exact integer, and the two agree on every integer up to \<open>2 ^ 53\<close>.)

  \<open>bitLength n\<close> is the number of binary digits of \<open>n\<close>. A double has 53 of
  them: \<open>roundToDouble\<close> keeps the leading 53 digits \<open>q\<close> of a longer integer
  and rounds on the remainder \<open>r\<close>; \<open>None\<close> is the overflow.
\<close>

fun bitLength :: "nat \<Rightarrow> nat" where
  "bitLength n = (if n = 0 then 0 else Suc (bitLength (n div 2)))"

declare bitLength.simps [simp del]

definition roundToDouble :: "nat \<Rightarrow> nat option" where
  "roundToDouble n =
     (let e = bitLength n - 53
      in if e = 0 then Some n
         else (let q = n div 2 ^ e;
                   r = n mod 2 ^ e;
                   h = 2 ^ (e - 1);
                   q1 = (if h < r \<or> (r = h \<and> odd q) then q + 1 else q);
                   v = q1 * 2 ^ e
               in if 2 ^ 1024 \<le> v then None else Some v))"

definition toNumber :: "bool \<Rightarrow> nat \<Rightarrow> number" where
  "toNumber neg n =
     (case roundToDouble n of
        None \<Rightarrow> if neg then MinusInfinity else Infinity
      | Some v \<Rightarrow> Num (if neg then - int v else int v))"

definition digitVal :: "char \<Rightarrow> nat option" where
  "digitVal c =
     (let k = (of_char c :: nat)
      in if 48 \<le> k \<and> k \<le> 57 then Some (k - 48)
         else if 97 \<le> k \<and> k \<le> 102 then Some (k - 87)
         else if 65 \<le> k \<and> k \<le> 70 then Some (k - 55)
         else None)"

definition isRadixDigit :: "nat \<Rightarrow> char \<Rightarrow> bool" where
  "isRadixDigit r c = (case digitVal c of None \<Rightarrow> False | Some d \<Rightarrow> d < r)"

definition digitsValue :: "nat \<Rightarrow> string \<Rightarrow> nat" where
  "digitsValue r ds = foldl (\<lambda>acc c. acc * r + the (digitVal c)) 0 ds"

definition parseInt :: "string option \<Rightarrow> number" where
  "parseInt x =
     (let s = trimStart (case x of None \<Rightarrow> ''undefined'' | Some s \<Rightarrow> s);
          neg = startsWith s ''-'';
          s1 = (if startsWith s ''-'' \<or> startsWith s ''+'' then tl s else s);
          hex = (startsWith s1 ''0x'' \<or> startsWith s1 ''0X'');
          r = (if hex then 16 else 10);
          s2 = (if hex then drop 2 s1 else s1);
          ds = takeWhile (isRadixDigit r) s2
      in if ds = [] then NaN else toNumber neg (digitsValue r ds))"

text \<open>\<open>parseInt(x) || d\<close>: \<open>NaN\<close> and the zeros are falsy.\<close>

definition parseInt_or :: "string option \<Rightarrow> number \<Rightarrow> number" where
  "parseInt_or x d = (let n = parseInt x in if n = NaN \<or> n = Num 0 then d else n)"

section \<open>Nodes\<close>

text \<open>
  \<open>WebflowNodeType\<close> is a union of string literals. \<open>Inherited k\<close> stands for the
  value that the lookup \<open>TAG_TO_TYPE_MAP[k]\<close> finds on \<open>Object.prototype\<close> rather
  than in the table: a value that is no type name.
\<close>

datatype WebflowNodeType =
    Block | Section | Heading | Paragraph | Link | Image | ListType | ListItem | Container
  | FormWrapper | FormForm | FormButton | FormTextInput | FormTextarea | FormSelect
  | FormBlockLabel | FormInlineLabel | FormRadioWrapper | FormRadioInput
  | FormCheckboxWrapper | FormCheckboxInput | FormSuccessMessage | FormErrorMessage
  | Grid | DOM | Inherited string

text \<open>
  A node is an element node or a text node (\<open>text: true\<close>, the literal \<open>v\<close> and an
  empty \<open>children\<close>). Identifiers are of any type \<open>'id\<close>; style identifiers are
  the strings of the class map.
\<close>

datatype 'id WebflowNode =
    WebflowElementNode (elem_id: 'id) (classes: "string list") (ntype: WebflowNodeType)
      (ntag: string) (ndata: json) (elem_children: "'id list")
  | WebflowTextNode (text_id: 'id) (v: string)

fun node_id :: "'id WebflowNode \<Rightarrow> 'id" where
  "node_id (WebflowElementNode i cl ty tg d ch) = i"
| "node_id (WebflowTextNode i s) = i"

fun node_children :: "'id WebflowNode \<Rightarrow> 'id list" where
  "node_children (WebflowElementNode i cl ty tg d ch) = ch"
| "node_children (WebflowTextNode i s) = []"

fun is_text :: "'id WebflowNode \<Rightarrow> bool" where
  "is_text (WebflowElementNode i cl ty tg d ch) = False"
| "is_text (WebflowTextNode i s) = True"

text \<open>\<open>webflowNode.children = childIds\<close>, only ever applied to an element node.\<close>

fun set_children :: "'id WebflowNode \<Rightarrow> 'id list \<Rightarrow> 'id WebflowNode" where
  "set_children (WebflowElementNode i cl ty tg d ch) ch' = WebflowElementNode i cl ty tg d ch'"
| "set_children (WebflowTextNode i s) ch' = WebflowTextNode i s"

section \<open>The tree compiler\<close>

definition TAG_TO_TYPE_MAP :: "(string \<times> WebflowNodeType) list" where
  "TAG_TO_TYPE_MAP =
     [(''div'', Block), (''section'', Section), (''article'', Block), (''aside'', Block),
      (''nav'', Block), (''header'', Block), (''footer'', Block), (''main'', Block),
      (''h1'', Heading), (''h2'', Heading), (''h3'', Heading), (''h4'', Heading),
      (''h5'', Heading), (''h6'', Heading),
      (''p'', Paragraph), (''span'', Block), (''strong'', Block), (''em'', Block),
      (''b'', Block), (''i'', Block),
      (''a'', Link), (''img'', Image),
      (''ul'', ListType), (''ol'', ListType), (''li'', ListItem),
      (''form'', FormForm), (''input'', FormTextInput), (''button'', Block),
      (''textarea'', FormTextarea), (''select'', FormSelect), (''label'', FormBlockLabel),
      (''container'', Container)]"

text \<open>
  \<open>TAG_TO_TYPE_MAP[tag]\<close>. The table is an object literal, so a key it does not
  own is looked up on \<open>Object.prototype\<close>; the names there without a capital
  letter are \<open>constructor\<close> and \<open>__proto__\<close>, and what they hold is truthy.
\<close>

definition table_lookup :: "string \<Rightarrow> WebflowNodeType option" where
  "table_lookup tag =
     (case map_of TAG_TO_TYPE_MAP tag of
        Some t \<Rightarrow> Some t
      | None \<Rightarrow> if tag = ''constructor'' \<or> tag = ''__proto__'' then Some (Inherited tag) else None)"

definition getWebflowType :: "string \<Rightarrow> (string \<times> string) list \<Rightarrow> bool \<Rightarrow> WebflowNodeType" where
  "getWebflowType tag as insideForm =
     (if tag = ''input'' then
        (let inputType = or_else (map_option toLowerCase (attr as ''type'')) ''text''
         in if inputType = ''submit'' \<or> inputType = ''button'' then
              (if insideForm then FormButton else Block)
            else if inputType = ''radio'' then (if insideForm then FormRadioInput else Block)
            else if inputType = ''checkbox'' then (if insideForm then FormCheckboxInput else Block)
            else (if insideForm then FormTextInput else Block))
      else if tag = ''textarea'' then (if insideForm then FormTextarea else Block)
      else if tag = ''select'' then (if insideForm then FormSelect else Block)
      else if tag = ''label'' then (if insideForm then FormBlockLabel else Block)
      else (case table_lookup tag of Some t \<Rightarrow> t | None \<Rightarrow> DOM))"

definition extractClassNames :: "(string \<times> string) list \<Rightarrow> string list" where
  "extractClassNames as =
     (case attr as ''class'' of
        None \<Rightarrow> []
      | Some classAttr \<Rightarrow>
          if classAttr = [] then []
          else filter (\<lambda>c. length c > 0) (map trim (split_ws classAttr)))"

text \<open>\<open>attribs[k] !== undefined\<close> as a JSON boolean.\<close>

definition present :: "(string \<times> string) list \<Rightarrow> string \<Rightarrow> json" where
  "present as k = JBool (attr as k \<noteq> None)"

definition extractAttributes :: "(string \<times> string) list \<Rightarrow> string \<Rightarrow> (string \<times> json) list" where
  "extractAttributes as tag =
     (let attributes = [(''id'', JStr (or_else (attr as ''id'') []))]
      in if tag = ''img'' then
           assign attributes
             [(''width'', JStr (or_else (attr as ''width'') ''auto'')),
              (''height'', JStr (or_else (attr as ''height'') ''auto'')),
              (''alt'', JStr (or_else (attr as ''alt'') [])),
              (''src'', JStr (or_else (attr as ''src'') [])),
              (''loading'', JStr (if attr as ''loading'' = Some ''eager'' then ''eager'' else ''lazy''))]
         else if tag = ''a'' then attributes
         else if tag = ''form'' then
           assign attributes
             [(''name'', JStr (or_else (attr as ''name'') [])),
              (''data-name'', JStr (or_else2 (attr as ''data-name'') (attr as ''name'') [])),
              (''action'', JStr (or_else (attr as ''action'') [])),
              (''method'', JStr (or_else (attr as ''method'') ''get'')),
              (''redirect'', JStr (or_else (attr as ''redirect'') [])),
              (''data-redirect'', JStr (or_else (attr as ''data-redirect'') []))]
         else if tag = ''input'' then
           (let inputType = or_else (attr as ''type'') ''text'';
                common = assign attributes
                  [(''type'', JStr inputType),
                   (''name'', JStr (or_else (attr as ''name'') [])),
                   (''data-name'', JStr (or_else2 (attr as ''data-name'') (attr as ''name'') [])),
                   (''placeholder'', JStr (or_else (attr as ''placeholder'') [])),
                   (''required'', present as ''required''),
                   (''disabled'', present as ''disabled''),
                   (''autofocus'', present as ''autofocus'')]
            in if inputType = ''submit'' \<or> inputType = ''button'' then
                 assign common
                   [(''value'', JStr (or_else (attr as ''value'') ''Submit'')),
                    (''data-wait'', JStr (or_else (attr as ''data-wait'') ''Please wait...''))]
               else if inputType = ''radio'' \<or> inputType = ''checkbox'' then
                 assign common
                   [(''value'', JStr (or_else (attr as ''value'') [])),
                    (''checked'', present as ''checked'')]
               else
                 assign common [(''maxlength'', JNum (parseInt_or (attr as ''maxlength'') (Num 256)))])
         else if tag = ''textarea'' then
           assign attributes
             [(''name'', JStr (or_else (attr as ''name'') [])),
              (''data-name'', JStr (or_else2 (attr as ''data-name'') (attr as ''name'') [])),
              (''placeholder'', JStr (or_else (attr as ''placeholder'') [])),
              (''required'', present as ''required''),
              (''autofocus'', present as ''autofocus''),
              (''maxlength'', JNum (parseInt_or (attr as ''maxlength'') (Num 5000)))]
         else if tag = ''select'' then
           assign attributes
             [(''name'', JStr (or_else (attr as ''name'') [])),
              (''data-name'', JStr (or_else2 (attr as ''data-name'') (attr as ''name'') [])),
              (''required'', present as ''required''),
              (''multiple'', present as ''multiple'')]
         else if tag = ''button'' then
           assign attributes [(''type'', JStr (or_else (attr as ''type'') ''button''))]
         else if tag = ''label'' then
           assign attributes [(''for'', JStr (or_else (attr as ''for'') []))]
         else attributes)"

definition getTypeSpecificData ::
  "(string \<times> string) list \<Rightarrow> string \<Rightarrow> WebflowNodeType \<Rightarrow> (string \<times> json) list" where
  "getTypeSpecificData as tag type =
     (case type of
        Link \<Rightarrow>
          [(''button'', JBool (case attr as ''class'' of None \<Rightarrow> False
                                | Some c \<Rightarrow> str_includes c ''button'')),
           (''block'', JStr []),
           (''link'', JObj
              [(''mode'', JStr (if (case attr as ''href'' of None \<Rightarrow> False
                                     | Some h \<Rightarrow> startsWith h ''http'')
                                then ''external'' else ''internal'')),
               (''url'', JStr (or_else (attr as ''href'') ''#''))]),
           (''eventIds'', JArr [])]
      | Image \<Rightarrow>
          [(''img'', JObj [(''id'', JStr [])]),
           (''srcsetDisabled'', JBool False),
           (''sizes'', JArr [])]
      | Grid \<Rightarrow> [(''grid'', JStr ''two-by-two'')]
      | FormWrapper \<Rightarrow> [(''form'', JObj [(''type'', JStr ''wrapper'')])]
      | FormForm \<Rightarrow>
          [(''form'', JObj [(''type'', JStr ''form''),
                            (''name'', JStr (or_else2 (attr as ''name'') (attr as ''id'') ''Form''))]),
           (''Source'', JObj [(''tag'', JStr ''Default form''), (''val'', JObj [])])]
      | FormButton \<Rightarrow>
          [(''style'', JObj [(''base'', JObj [(''main'', JObj [(''noPseudo'',
               JObj [(''justifySelf'', JStr ''start'')])])])]),
           (''form'', JObj [(''type'', JStr ''button'')]),
           (''eventIds'', JArr [])]
      | FormTextInput \<Rightarrow>
          [(''form'', JObj [(''type'', JStr ''input''),
                            (''name'', JStr (or_else2 (attr as ''name'') (attr as ''id'') ''Field'')),
                            (''passwordPage'', JBool False)])]
      | FormTextarea \<Rightarrow>
          [(''form'', JObj [(''type'', JStr ''textarea''),
                            (''name'', JStr (or_else2 (attr as ''name'') (attr as ''id'') ''Message''))])]
      | FormSelect \<Rightarrow>
          [(''form'', JObj [(''type'', JStr ''select''),
                            (''opts'', JArr [JObj [(''v'', JStr []), (''t'', JStr ''Select one...'')],
                                             JObj [(''v'', JStr ''Option 1''), (''t'', JStr ''Option 1'')]]),
                            (''name'', JStr (or_else2 (attr as ''name'') (attr as ''id'') ''Select''))])]
      | FormBlockLabel \<Rightarrow>
          [(''form'', JObj [(''type'', JStr ''label''), (''passwordPage'', JBool False)])]
      | FormInlineLabel \<Rightarrow> [(''form'', JObj [(''type'', JStr ''radio-label'')])]
      | FormRadioInput \<Rightarrow>
          [(''form'', JObj [(''type'', JStr ''radio-input''),
                            (''name'', JStr (or_else (attr as ''name'') ''Radio''))]),
           (''inputType'', JStr ''custom'')]
      | FormCheckboxInput \<Rightarrow>
          [(''form'', JObj [(''type'', JStr ''checkbox-input''),
                            (''name'', JStr (or_else (attr as ''name'') ''Checkbox''))]),
           (''inputType'', JStr ''custom'')]
      | FormRadioWrapper \<Rightarrow> [(''form'', JObj [(''type'', JStr ''radio'')])]
      | FormCheckboxWrapper \<Rightarrow> [(''form'', JObj [(''type'', JStr ''checkbox'')])]
      | FormSuccessMessage \<Rightarrow> [(''form'', JObj [(''type'', JStr ''msg-done'')])]
      | FormErrorMessage \<Rightarrow> [(''form'', JObj [(''type'', JStr ''msg-fail'')])]
      | _ \<Rightarrow> [])"

text \<open>
  The data object of \<open>processElement\<close>: the custom-element shape for type \<open>DOM\<close>,
  the standard shape otherwise.
\<close>

definition htmlAttributes :: "(string \<times> string) list \<Rightarrow> json list" where
  "htmlAttributes as =
     map (\<lambda>(n, x). JObj [(''name'', JStr n), (''value'', JStr (if x = [] then '' '' else x))])
       (filter (\<lambda>(n, x). n \<noteq> ''class'' \<and> n \<noteq> ''id'') as)"

definition buildData :: "(string \<times> string) list \<Rightarrow> string \<Rightarrow> WebflowNodeType \<Rightarrow> json" where
  "buildData as tag type =
     (if type = DOM then
        JObj [(''editable'', JBool True), (''tag'', JStr tag), (''attributes'', JArr (htmlAttributes as))]
      else
        (let d0 = [(''attr'', JObj (extractAttributes as tag)), (''xattr'', JArr [])];
             needsTextAndTag = (type \<in> set [Block, Section, Container]);
             needsTagOnly = (type \<in> set [Heading]);
             d1 = (if needsTextAndTag then assign d0 [(''text'', JBool False), (''tag'', JStr tag)]
                   else if needsTagOnly then assign d0 [(''tag'', JStr tag)]
                   else d0);
             d2 = assign d1 (getTypeSpecificData as tag type)
         in JObj (assign d2
              [(''devlink'', JObj [(''runtimeProps'', JObj []), (''slot'', JStr [])]),
               (''displayName'', JStr []),
               (''search'', JObj [(''exclude'', JBool (type = FormWrapper))]),
               (''visibility'', JObj [(''conditions'', JArr [])])])))"

text \<open>
  The element node as \<open>processElement\<close> pushes it, with no children yet.
\<close>

definition newElementNode ::
  "'id \<Rightarrow> (string \<rightharpoonup> string) \<Rightarrow> string \<Rightarrow> (string \<times> string) list \<Rightarrow> bool \<Rightarrow> 'id WebflowNode" where
  "newElementNode nodeId classToIdMap nm as insideForm =
     (let tag = toLowerCase nm;
          type = getWebflowType tag as insideForm;
          classUUIDs = List.map_filter classToIdMap (extractClassNames as)
      in WebflowElementNode nodeId classUUIDs type (if type = DOM then ''div'' else tag)
           (buildData as tag type) [])"

text \<open>
  The state threaded through the compiler: how many identifiers \<open>uuidv4\<close> has
  handed out (the generator \<open>gen\<close> maps that count to the next identifier) and
  the array \<open>allNodes\<close>.
\<close>

type_synonym 'id cstate = "nat \<times> 'id WebflowNode list"

definition createTextNode :: "(nat \<Rightarrow> 'id) \<Rightarrow> string \<Rightarrow> 'id cstate \<Rightarrow> 'id \<times> 'id cstate" where
  "createTextNode gen s st =
     (case st of (n, allNodes) \<Rightarrow> (gen n, (Suc n, allNodes @ [WebflowTextNode (gen n) s])))"

text \<open>
  \<open>processElement\<close> pushes the node, walks the children (\<open>processChildren\<close> is
  its \<open>for\<close> loop, with \<open>childIds\<close> as accumulator) and then assigns
  \<open>children\<close> on the node object, which the array holds at the index where it
  was pushed.
\<close>

fun processElement ::
  "(nat \<Rightarrow> 'id) \<Rightarrow> (string \<rightharpoonup> string) \<Rightarrow> DomNode \<Rightarrow> bool \<Rightarrow> 'id cstate \<Rightarrow> 'id \<times> 'id cstate"
and processChildren ::
  "(nat \<Rightarrow> 'id) \<Rightarrow> (string \<rightharpoonup> string) \<Rightarrow> DomNode list \<Rightarrow> bool \<Rightarrow> 'id list \<Rightarrow> 'id cstate
     \<Rightarrow> 'id list \<times> 'id cstate"
where
  "processElement gen m (Element nm as ch) insideForm (n, allNodes) =
     (let nodeId = gen n;
          webflowNode = newElementNode nodeId m nm as insideForm;
          idx = length allNodes;
          childrenInsideForm = (toLowerCase nm = ''form'' \<or> insideForm);
          (childIds, n', nodes') =
             processChildren gen m ch childrenInsideForm [] (Suc n, allNodes @ [webflowNode])
      in (nodeId, (n', nodes'[idx := set_children webflowNode childIds])))"
| "processChildren gen m [] inside childIds st = (childIds, st)"
| "processChildren gen m (Element nm as ch # cs) inside childIds st =
     (let (childId, st') = processElement gen m (Element nm as ch) inside st
      in processChildren gen m cs inside (childIds @ [childId]) st')"
| "processChildren gen m (Text d # cs) inside childIds st =
     (let textContent = trim d
      in if length textContent > 0 then
           (let (textNodeId, st') = createTextNode gen textContent st
            in processChildren gen m cs inside (childIds @ [textNodeId]) st')
         else processChildren gen m cs inside childIds st)"
| "processChildren gen m (OtherNode # cs) inside childIds st =
     processChildren gen m cs inside childIds st"

definition DOCUMENT_STRUCTURE_TAGS :: "string list" where
  "DOCUMENT_STRUCTURE_TAGS =
     [''html'', ''head'', ''body'', ''title'', ''meta'', ''link'', ''script'', ''style'', ''base'']"

definition isBodyContent :: "DomNode \<Rightarrow> bool" where
  "isBodyContent child =
     (case child of
        Element cn as ch \<Rightarrow> toLowerCase cn \<noteq> ''script'' \<and> toLowerCase cn \<noteq> ''style''
      | _ \<Rightarrow> False)"

text \<open>\<open>traverse\<close> returns, in order, what the source pushes onto \<open>contentElements\<close>.\<close>

fun traverse :: "DomNode \<Rightarrow> DomNode list" where
  "traverse (Element nm as ch) =
     (let tag = toLowerCase nm
      in if tag = ''body'' then filter isBodyContent ch
         else if tag \<in> set DOCUMENT_STRUCTURE_TAGS then concat (map traverse ch)
         else [Element nm as ch])"
| "traverse (Text d) = []"
| "traverse OtherNode = []"

definition extractContentElements :: "DomNode list \<Rightarrow> DomNode list" where
  "extractContentElements doc = concat (map traverse doc)"

text \<open>
  The loop of \<open>compileHTMLToNodes\<close> over the content elements. Its guard
  \<open>if (nodeId)\<close> always holds: an identifier is a non-empty string.
\<close>

fun compileLoop ::
  "(nat \<Rightarrow> 'id) \<Rightarrow> (string \<rightharpoonup> string) \<Rightarrow> DomNode list \<Rightarrow> 'id list \<Rightarrow> 'id cstate
     \<Rightarrow> 'id list \<times> 'id cstate" where
  "compileLoop gen m [] rootNodeIds st = (rootNodeIds, st)"
| "compileLoop gen m (e # es) rootNodeIds st =
     (let (nodeId, st') = processElement gen m e False st
      in compileLoop gen m es (rootNodeIds @ [nodeId]) st')"

text \<open>
  \<open>compileHTMLToNodes\<close> on the children of the parsed document, with \<open>n0\<close>
  identifiers handed out before the call. The result is \<open>(nodes, rootNodeIds)\<close>.
\<close>

definition compileHTMLToNodes ::
  "(nat \<Rightarrow> 'id) \<Rightarrow> (string \<rightharpoonup> string) \<Rightarrow> DomNode list \<Rightarrow> nat \<Rightarrow> 'id WebflowNode list \<times> 'id list" where
  "compileHTMLToNodes gen classToIdMap doc n0 =
     (let contentElements = extractContentElements doc;
          (rootNodeIds, n, allNodes) = compileLoop gen classToIdMap contentElements [] (n0, [])
      in (allNodes, rootNodeIds))"

section \<open>The chunker\<close>

text \<open>
  A JavaScript \<open>Set\<close> of identifiers is a list without repetition in insertion
  order: \<open>add\<close> appends a new member, \<open>size\<close> is the length, \<open>has\<close> is
  membership.
\<close>

definition set_add :: "'a list \<Rightarrow> 'a \<Rightarrow> 'a list" where
  "set_add s x = (if x \<in> set s then s else s @ [x])"

text \<open>
  The label of a chunk is a string, or, when \<open>labelMap[tag]\<close> finds the tag on
  \<open>Object.prototype\<close>, the value found there.
\<close>

datatype chunk_label = Label string | InheritedLabel string

record 'id WebflowChunk =
  chunk_label :: chunk_label
  chunk_nodes :: "'id WebflowNode list"
  nodeCount :: nat

text \<open>
  \<open>countNodesInSubtree\<close> and \<open>collectSubtreeNodes\<close> recurse through the children
  lists of whatever node list they are given, which need not be a tree. The
  model gives each call a \<open>fuel\<close>, the depth of recursion the stack allows, and
  returns \<open>None\<close> when it is used up. \<open>count_loop\<close> and \<open>collect_loop\<close> are the
  \<open>for\<close> loops over the children.
\<close>

fun count_loop :: "('id \<Rightarrow> nat option) \<Rightarrow> 'id list \<Rightarrow> nat \<Rightarrow> nat option" where
  "count_loop f [] cnt = Some cnt"
| "count_loop f (childId # cs) cnt =
     (case f childId of None \<Rightarrow> None | Some k \<Rightarrow> count_loop f cs (cnt + k))"

fun countNodesInSubtree :: "nat \<Rightarrow> 'id WebflowNode list \<Rightarrow> 'id \<Rightarrow> nat option" where
  "countNodesInSubtree 0 nodes nodeId = None"
| "countNodesInSubtree (Suc fuel) nodes nodeId =
     (case find (\<lambda>n. node_id n = nodeId) nodes of
        None \<Rightarrow> Some 0
      | Some node \<Rightarrow> count_loop (\<lambda>c. countNodesInSubtree fuel nodes c) (node_children node) 1)"

fun collect_loop :: "('id \<Rightarrow> 'id list \<Rightarrow> 'id list option) \<Rightarrow> 'id list \<Rightarrow> 'id list \<Rightarrow> 'id list option" where
  "collect_loop f [] collected = Some collected"
| "collect_loop f (childId # cs) collected =
     (case f childId collected of None \<Rightarrow> None | Some collected' \<Rightarrow> collect_loop f cs collected')"

fun collectSubtreeNodes :: "nat \<Rightarrow> 'id WebflowNode list \<Rightarrow> 'id \<Rightarrow> 'id list \<Rightarrow> 'id list option" where
  "collectSubtreeNodes 0 nodes nodeId collected = None"
| "collectSubtreeNodes (Suc fuel) nodes nodeId collected =
     (let collected1 = set_add collected nodeId
      in case find (\<lambda>n. node_id n = nodeId) nodes of
           None \<Rightarrow> Some collected1
         | Some node \<Rightarrow>
             collect_loop (\<lambda>c acc. collectSubtreeNodes fuel nodes c acc) (node_children node) collected1)"

definition labelMap :: "(string \<times> string) list" where
  "labelMap =
     [(''header'', ''Header''), (''nav'', ''Navigation''), (''section'', ''Section''),
      (''footer'', ''Footer''), (''main'', ''Main Content''), (''article'', ''Article''),
      (''aside'', ''Sidebar''), (''form'', ''Form'')]"

definition getNodeLabel :: "'id WebflowNode list \<Rightarrow> 'id \<Rightarrow> chunk_label" where
  "getNodeLabel nodes nodeId =
     (case find (\<lambda>n. node_id n = nodeId) nodes of
        None \<Rightarrow> Label ''Content''
      | Some node \<Rightarrow>
          if is_text node then Label ''Content''
          else (let tag = toLowerCase (ntag node)
                in case map_of labelMap tag of
                     Some l \<Rightarrow> Label l
                   | None \<Rightarrow> if tag = ''constructor'' \<or> tag = ''__proto__''
                              then InheritedLabel tag else Label ''Content''))"

text \<open>
  The state of the loop over the root identifiers: \<open>currentChunkNodes\<close>,
  \<open>currentChunkRoots\<close>, \<open>chunkIndex\<close> and \<open>chunks\<close>.
\<close>

type_synonym 'id split_state = "'id list \<times> 'id list \<times> nat \<times> 'id WebflowChunk list"

definition makeChunk :: "chunk_label \<Rightarrow> 'id WebflowNode list \<Rightarrow> 'id WebflowChunk" where
  "makeChunk l chunkNodes = \<lparr>chunk_label = l, chunk_nodes = chunkNodes, nodeCount = length chunkNodes\<rparr>"

fun splitLoop ::
  "nat \<Rightarrow> 'id WebflowNode list \<Rightarrow> int \<Rightarrow> 'id list \<Rightarrow> 'id split_state \<Rightarrow> 'id split_state option" where
  "splitLoop fuel nodes maxNodesPerChunk [] st = Some st"
| "splitLoop fuel nodes maxNodesPerChunk (rootId # rest) (cur, curRoots, chunkIndex, chunks) =
     (case countNodesInSubtree fuel nodes rootId of
        None \<Rightarrow> None
      | Some subtreeSize \<Rightarrow>
          (let (cur1, curRoots1, chunkIndex1, chunks1) =
                 (if length cur > 0 \<and> int (length cur + subtreeSize) > maxNodesPerChunk then
                    (let chunkNodes = filter (\<lambda>n. node_id n \<in> set cur) nodes;
                         l = (if length curRoots = 1 then getNodeLabel nodes (hd curRoots)
                              else Label (''Chunk '' @ show_nat chunkIndex))
                     in ([], [], chunkIndex + 1, chunks @ [makeChunk l chunkNodes]))
                  else (cur, curRoots, chunkIndex, chunks))
           in case collectSubtreeNodes fuel nodes rootId cur1 of
                None \<Rightarrow> None
              | Some cur2 \<Rightarrow>
                  splitLoop fuel nodes maxNodesPerChunk rest
                    (cur2, curRoots1 @ [rootId], chunkIndex1, chunks1)))"

definition splitIntoChunks ::
  "nat \<Rightarrow> 'id WebflowNode list \<Rightarrow> 'id list \<Rightarrow> int \<Rightarrow> 'id WebflowChunk list option" where
  "splitIntoChunks fuel nodes rootNodeIds maxNodesPerChunk =
     (case splitLoop fuel nodes maxNodesPerChunk rootNodeIds ([], [], 1, []) of
        None \<Rightarrow> None
      | Some (cur, curRoots, chunkIndex, chunks) \<Rightarrow>
          Some (if length cur > 0 then
                  (let chunkNodes = filter (\<lambda>n. node_id n \<in> set cur) nodes;
                       l = (if length curRoots = 1 then getNodeLabel nodes (hd curRoots)
                            else if chunkIndex = 1 then Label ''Complete Page''
                            else Label (''Chunk '' @ show_nat chunkIndex))
                   in chunks @ [makeChunk l chunkNodes])
                else chunks))"

section \<open>The style compiler\<close>

subsection \<open>Scanning with a regular expression\<close>

text \<open>
  Each regular expression of the source is modelled by a matcher: a function
  that tries the pattern at the start of a string and returns what the match
  captured together with the rest of the string after the match, following
  the priorities of a backtracking engine (greedy quantifiers first). The two
  functions below are the loops around a matcher: \<open>scan_matches\<close> is
  \<open>while ((match = re.exec(s)) !== null)\<close> for a global pattern, and
  \<open>replace_all\<close> is \<open>s.replace(re, callback)\<close>: the leftmost match is taken,
  the search goes on after it, and where no match starts the next position is
  tried. A match of the patterns used here is never empty, so the test
  \<open>length rest < length s\<close> always holds; it is there for the recursion to be
  well-founded. The callback of \<open>replace_all\<close> may fail to return (\<open>None\<close>),
  and then so does the replacement.
\<close>

function scan_matches :: "(string \<Rightarrow> ('m \<times> string) option) \<Rightarrow> string \<Rightarrow> 'm list" where
  "scan_matches mt s =
     (case mt s of
        Some (m, rest) \<Rightarrow> m # (if length rest < length s then scan_matches mt rest else [])
      | None \<Rightarrow> (case s of [] \<Rightarrow> [] | c # cs \<Rightarrow> scan_matches mt cs))"
  by pat_completeness auto
termination
  by (relation "measure (\<lambda>(mt, s). length s)") auto

declare scan_matches.simps [simp del]

function replace_all ::
  "(string \<Rightarrow> ('m \<times> string) option) \<Rightarrow> ('m \<Rightarrow> string option) \<Rightarrow> string \<Rightarrow> string option" where
  "replace_all mt f s =
     (case mt s of
        Some (m, rest) \<Rightarrow>
          (case f m of
             None \<Rightarrow> None
           | Some r \<Rightarrow>
               if length rest < length s then map_option ((@) r) (replace_all mt f rest)
               else Some r)
      | None \<Rightarrow> (case s of [] \<Rightarrow> Some [] | c # cs \<Rightarrow> map_option ((#) c) (replace_all mt f cs)))"
  by pat_completeness auto
termination
  by (relation "measure (\<lambda>(mt, f, s). length s)") auto

declare replace_all.simps [simp del]

text \<open>
  The first occurrence of \<open>t\<close> in a string: what stands before it and what
  comes after it. This is \<open>indexOf\<close>, and also a lazy \<open>[\s\S]*?\<close> followed
  by the literal \<open>t\<close>.
\<close>

fun find_sub :: "string \<Rightarrow> string \<Rightarrow> (string \<times> string) option" where
  "find_sub t [] = (if t = [] then Some ([], []) else None)"
| "find_sub t (c # cs) =
     (if startsWith (c # cs) t then Some ([], drop (length t) (c # cs))
      else (case find_sub t cs of None \<Rightarrow> None | Some (a, b) \<Rightarrow> Some (c # a, b)))"

text \<open>\<open>\w\<close> and the class \<open>[\w-]\<close>.\<close>

definition isWordChar :: "char \<Rightarrow> bool" where
  "isWordChar c =
     (let k = (of_char c :: nat)
      in (48 \<le> k \<and> k \<le> 57) \<or> (65 \<le> k \<and> k \<le> 90) \<or> (97 \<le> k \<and> k \<le> 122) \<or> k = 95)"

definition isNameChar :: "char \<Rightarrow> bool" where
  "isNameChar c = (isWordChar c \<or> c = CHR ''-'')"

text \<open>
  A greedy \<open>\s*\<close> followed by a greedy \<open>[^e]+\<close> and then the character \<open>e\<close>,
  tried at the start of \<open>s\<close>: the captured group and the rest after \<open>e\<close>. The
  white space is skipped and the group runs to the first \<open>e\<close>; when the group
  would be empty the engine gives the last white space character back to it.
\<close>

definition ws_then_group :: "char \<Rightarrow> string \<Rightarrow> (string \<times> string) option" where
  "ws_then_group e s =
     (let w = takeWhile isWhiteSpace s;
          g = takeWhile (\<lambda>c. c \<noteq> e) (dropWhile isWhiteSpace s);
          r = dropWhile (\<lambda>c. c \<noteq> e) (dropWhile isWhiteSpace s)
      in if r = [] then None
         else if g \<noteq> [] then Some (g, tl r)
         else if w \<noteq> [] then Some ([last w], tl r)
         else None)"

subsection \<open>Rules\<close>

text \<open>
  \<open>/\/\*[\s\S]*?\*\//g\<close>, and \<open>strip_comments\<close> for its replacement by the
  empty string everywhere.
\<close>

definition match_comment :: "string \<Rightarrow> (unit \<times> string) option" where
  "match_comment s =
     (if startsWith s ''/*'' then
        (case find_sub ''*/'' (drop 2 s) of None \<Rightarrow> None | Some (a, b) \<Rightarrow> Some ((), b))
      else None)"

function strip_comments :: "string \<Rightarrow> string" where
  "strip_comments s =
     (case match_comment s of
        Some (u, rest) \<Rightarrow> if length rest < length s then strip_comments rest else []
      | None \<Rightarrow> (case s of [] \<Rightarrow> [] | c # cs \<Rightarrow> c # strip_comments cs))"
  by pat_completeness auto
termination
  by (relation "measure length") auto

declare strip_comments.simps [simp del]

record CSSRule =
  selector :: string
  properties :: "string list"

text \<open>
  \<open>/([^{]+)\{([^}]+)\}/g\<close>. Each group is a greedy run that must be followed by
  the brace it excludes, so only the maximal run can match.
\<close>

definition match_rule :: "string \<Rightarrow> ((string \<times> string) \<times> string) option" where
  "match_rule s =
     (let sel = takeWhile (\<lambda>c. c \<noteq> CHR ''{'') s;
          r = dropWhile (\<lambda>c. c \<noteq> CHR ''{'') s
      in if sel = [] \<or> r = [] then None
         else (let body = takeWhile (\<lambda>c. c \<noteq> CHR ''}'') (tl r);
                   r2 = dropWhile (\<lambda>c. c \<noteq> CHR ''}'') (tl r)
               in if body = [] \<or> r2 = [] then None else Some ((sel, body), tl r2)))"

text \<open>\<open>s.split(c)\<close> for a one-character separator.\<close>

fun split_char :: "char \<Rightarrow> string \<Rightarrow> string list" where
  "split_char e [] = [[]]"
| "split_char e (c # cs) =
     (if c = e then [] # split_char e cs
      else (case split_char e cs of p # ps \<Rightarrow> (c # p) # ps | [] \<Rightarrow> [[c]]))"

definition parseCSSRules :: "string \<Rightarrow> CSSRule list" where
  "parseCSSRules cssString =
     (let cleanedCSS = strip_comments cssString
      in map (\<lambda>(sel, body).
                \<lparr>selector = trim sel,
                 properties = filter (\<lambda>p. length p > 0) (map trim (split_char CHR '';'' (trim body)))\<rparr>)
           (scan_matches match_rule cleanedCSS))"

definition findRuleForClass :: "CSSRule list \<Rightarrow> string \<Rightarrow> CSSRule option" where
  "findRuleForClass rules className =
     (let targetSelector = ''.'' @ className
      in find (\<lambda>rule. selector rule = targetSelector
                \<or> startsWith (selector rule) (targetSelector @ '' '')
                \<or> startsWith (selector rule) (targetSelector @ '':'')
                \<or> startsWith (selector rule) (targetSelector @ ''.'')) rules)"

text \<open>
  \<open>replace(/\s*:\s*/, ": ")\<close>, the first match only: the leftmost position
  from which white space leads to a colon.
\<close>

fun replace_colon :: "string \<Rightarrow> string" where
  "replace_colon [] = []"
| "replace_colon (c # cs) =
     (case dropWhile isWhiteSpace (c # cs) of
        [] \<Rightarrow> c # replace_colon cs
      | d # r \<Rightarrow> if d = CHR '':'' then '': '' @ dropWhile isWhiteSpace r else c # replace_colon cs)"

definition cleanProp :: "string \<Rightarrow> string" where
  "cleanProp prop =
     (let p1 = trim prop;
          p2 = filter (\<lambda>c. c \<noteq> CHR ''{'' \<and> c \<noteq> CHR ''}'') p1;
          p3 = replace_colon p2
      in if p3 \<noteq> [] \<and> last p3 = CHR '';'' then butlast p3 else p3)"

fun join :: "string \<Rightarrow> string list \<Rightarrow> string" where
  "join sep [] = []"
| "join sep [p] = p"
| "join sep (p # q # ps) = p @ sep @ join sep (q # ps)"

definition convertToStyleLess :: "string list \<Rightarrow> string" where
  "convertToStyleLess props = join ''; '' (filter (\<lambda>p. length p > 0) (map cleanProp props))"

subsection \<open>Custom properties\<close>

text \<open>
  The scan for the brace that closes the \<open>:root\<close> block: \<open>n\<close> is \<open>braceCount\<close>,
  the result is the text up to the closing brace, \<open>None\<close> when the string ends
  first.
\<close>

fun root_block :: "nat \<Rightarrow> string \<Rightarrow> string option" where
  "root_block n [] = None"
| "root_block n (c # cs) =
     (let n1 = (if c = CHR ''{'' then n + 1 else n);
          n2 = (if c = CHR ''}'' then n1 - 1 else n1)
      in if n2 = 0 then Some [] else map_option ((#) c) (root_block n2 cs))"

text \<open>
  \<open>/--([\w-]+)\s*:\s*([^;]+);/g\<close>. The name is the maximal run of name
  characters; the value is what \<open>ws_then_group\<close> captures before the
  semicolon.
\<close>

definition match_decl :: "string \<Rightarrow> ((string \<times> string) \<times> string) option" where
  "match_decl s =
     (if startsWith s ''--'' then
        (let nm = takeWhile isNameChar (drop 2 s);
             r1 = dropWhile isWhiteSpace (dropWhile isNameChar (drop 2 s))
         in if nm = [] \<or> \<not> startsWith r1 '':'' then None
            else (case ws_then_group CHR '';'' (tl r1) of
                    None \<Rightarrow> None
                  | Some (val, rest) \<Rightarrow> Some ((nm, val), rest)))
      else None)"

definition extractCSSVariables :: "string \<Rightarrow> (string \<rightharpoonup> string)" where
  "extractCSSVariables cssString =
     (let cleanedCSS = strip_comments cssString
      in case find_sub '':root'' cleanedCSS of
           None \<Rightarrow> Map.empty
         | Some (before, after) \<Rightarrow>
             (case dropWhile (\<lambda>c. c \<noteq> CHR ''{'') after of
                [] \<Rightarrow> Map.empty
              | b # afterBrace \<Rightarrow>
                  (case root_block 1 afterBrace of
                     None \<Rightarrow> Map.empty
                   | Some rootContent \<Rightarrow>
                       foldl (\<lambda>variables (varName, varValue).
                                variables(trim varName \<mapsto> trim varValue))
                         Map.empty (scan_matches match_decl rootContent))))"

text \<open>
  \<open>/var\(\s*--([\w-]+)\s*(?:,\s*([^)]+))?\)/g\<close>. The match carries its own
  text, the name and the fallback (\<open>None\<close> when the optional group took no
  part). The optional group is tried first; when it fails the pattern needs a
  closing parenthesis where the comma stands, and fails.
\<close>

definition match_var :: "string \<Rightarrow> ((string \<times> string \<times> string option) \<times> string) option" where
  "match_var s =
     (if startsWith s ''var('' then
        (let r1 = dropWhile isWhiteSpace (drop 4 s)
         in if startsWith r1 ''--'' then
              (let nm = takeWhile isNameChar (drop 2 r1);
                   r2 = dropWhile isWhiteSpace (dropWhile isNameChar (drop 2 r1))
               in if nm = [] then None
                  else if startsWith r2 '','' then
                    (case ws_then_group CHR '')'' (tl r2) of
                       None \<Rightarrow> None
                     | Some (fallback, rest) \<Rightarrow>
                         Some ((take (length s - length rest) s, nm, Some fallback), rest))
                  else if startsWith r2 '')'' then
                    Some ((take (length s - length (tl r2)) s, nm, None), tl r2)
                  else None)
            else None)
      else None)"

text \<open>
  \<open>resolveCSSVariables\<close> calls itself from the callback of \<open>replace\<close>, on the
  value of a variable, and nothing bounds the depth of these calls. The model
  gives it a \<open>fuel\<close>, the depth the stack allows, and returns \<open>None\<close> when it is
  used up.
\<close>

fun resolveCSSVariables :: "nat \<Rightarrow> string \<Rightarrow> (string \<rightharpoonup> string) \<Rightarrow> string option" where
  "resolveCSSVariables 0 property variables = None"
| "resolveCSSVariables (Suc fuel) property variables =
     replace_all match_var
       (\<lambda>(matched, varName, fallback).
          case variables varName of
            Some val \<Rightarrow>
              if str_includes val ''var('' then resolveCSSVariables fuel val variables
              else Some val
          | None \<Rightarrow>
              (case fallback of
                 Some fb \<Rightarrow> Some (trim fb)
               | None \<Rightarrow> Some matched))
       property"

subsection \<open>Styles\<close>

text \<open>
  A style record; its other fields are constants (\<open>fake\<close>, \<open>type\<close>,
  \<open>namespace\<close>, \<open>comb\<close>, \<open>children\<close>, \<open>origin\<close>, \<open>selector\<close>). \<open>variants\<close> maps a
  breakpoint to the declaration string of the variant.
\<close>

record 'id WebflowStyle =
  style_id :: 'id
  style_name :: string
  styleLess :: string
  variants :: "(string \<times> string) list"

text \<open>
  The declaration string of a matched rule: every property resolved, then
  flattened. \<open>those\<close> fails when one of the resolutions does.
\<close>

definition ruleStyleLess :: "nat \<Rightarrow> (string \<rightharpoonup> string) \<Rightarrow> CSSRule \<Rightarrow> string option" where
  "ruleStyleLess fuel cssVariables rule =
     map_option convertToStyleLess
       (those (map (\<lambda>prop. resolveCSSVariables fuel prop cssVariables) (properties rule)))"

text \<open>
  The loop of \<open>parseCSSToWebflow\<close> over the class names, on the state
  (identifiers handed out, \<open>classToIdMap\<close>, \<open>styles\<close>).
\<close>

fun parseLoop ::
  "(nat \<Rightarrow> 'id) \<Rightarrow> nat \<Rightarrow> (string \<rightharpoonup> string) \<Rightarrow> CSSRule list \<Rightarrow> string list
     \<Rightarrow> nat \<times> (string \<rightharpoonup> 'id) \<times> 'id WebflowStyle list
     \<Rightarrow> (nat \<times> (string \<rightharpoonup> 'id) \<times> 'id WebflowStyle list) option" where
  "parseLoop gen fuel cssVariables cssRules [] st = Some st"
| "parseLoop gen fuel cssVariables cssRules (className # rest) (n, classToIdMap, styles) =
     (let uuid = gen n;
          classToIdMap1 = classToIdMap(className \<mapsto> uuid)
      in case findRuleForClass cssRules className of
           Some rule \<Rightarrow>
             (case ruleStyleLess fuel cssVariables rule of
                None \<Rightarrow> None
              | Some sl \<Rightarrow>
                  parseLoop gen fuel cssVariables cssRules rest
                    (Suc n, classToIdMap1,
                     styles @ [\<lparr>style_id = uuid, style_name = className, styleLess = sl, variants = []\<rparr>]))
         | None \<Rightarrow>
             parseLoop gen fuel cssVariables cssRules rest
               (Suc n, classToIdMap1,
                styles @ [\<lparr>style_id = uuid, style_name = className, styleLess = [], variants = []\<rparr>]))"

text \<open>
  \<open>parseCSSToWebflow\<close>, with \<open>n0\<close> identifiers handed out before the call. The
  result is \<open>(classToIdMap, styles)\<close>; the third field of the source's result,
  \<open>customCSS\<close>, is computed afterwards from the CSS text alone and is left out.
\<close>

definition parseCSSToWebflow ::
  "(nat \<Rightarrow> 'id) \<Rightarrow> nat \<Rightarrow> string \<Rightarrow> string list \<Rightarrow> nat
     \<Rightarrow> ((string \<rightharpoonup> 'id) \<times> 'id WebflowStyle list) option" where
  "parseCSSToWebflow gen fuel cssString classNames n0 =
     (let cssVariables = extractCSSVariables cssString;
          cssRules = parseCSSRules cssString
      in case parseLoop gen fuel cssVariables cssRules classNames (n0, Map.empty, []) of
           None \<Rightarrow> None
         | Some (n, classToIdMap, styles) \<Rightarrow> Some (classToIdMap, styles))"

subsection \<open>Media queries\<close>

text \<open>
  \<open>/@media\s*([^{]+)\{([\s\S]*?)\n\}/g\<close>: the condition up to the first
  opening brace, then the shortest content that is followed by a line feed and
  a closing brace.
\<close>

definition match_media :: "string \<Rightarrow> ((string \<times> string) \<times> string) option" where
  "match_media s =
     (if startsWith s ''@media'' then
        (case ws_then_group CHR ''{'' (drop 6 s) of
           None \<Rightarrow> None
         | Some (mediaCondition, r) \<Rightarrow>
             (case find_sub [CHR 0x0A, CHR ''}''] r of
                None \<Rightarrow> None
              | Some (mediaContent, rest) \<Rightarrow> Some ((mediaCondition, mediaContent), rest)))
      else None)"

definition mapMediaQueryToBreakpoint :: "string \<Rightarrow> string option" where
  "mapMediaQueryToBreakpoint mediaCondition =
     (let condition = toLowerCase mediaCondition
      in if str_includes condition ''max-width'' then
           (if str_includes condition ''479px'' \<or> str_includes condition ''480px'' then Some ''tiny''
            else if str_includes condition ''767px'' \<or> str_includes condition ''768px'' then Some ''small''
            else if str_includes condition ''991px'' \<or> str_includes condition ''992px'' then Some ''medium''
            else None)
         else None)"

text \<open>
  \<open>parseMediaQueries\<close> builds an object keyed by breakpoint; a later block for
  the same breakpoint replaces the rules of an earlier one.
\<close>

definition parseMediaQueries :: "string \<Rightarrow> (string \<times> CSSRule list) list" where
  "parseMediaQueries cssString =
     (let cleanedCSS = strip_comments cssString
      in foldl (\<lambda>mediaQueries (mediaCondition, mediaContent).
                  case mapMediaQueryToBreakpoint (trim mediaCondition) of
                    None \<Rightarrow> mediaQueries
                  | Some breakpoint \<Rightarrow> set_prop mediaQueries breakpoint (parseCSSRules mediaContent))
           [] (scan_matches match_media cleanedCSS))"

fun variantsLoop ::
  "nat \<Rightarrow> (string \<rightharpoonup> string) \<Rightarrow> string \<Rightarrow> (string \<times> CSSRule list) list
     \<Rightarrow> (string \<times> string) list \<Rightarrow> (string \<times> string) list option" where
  "variantsLoop fuel cssVariables className [] vs = Some vs"
| "variantsLoop fuel cssVariables className ((breakpoint, rules) # rest) vs =
     (case findRuleForClass rules className of
        None \<Rightarrow> variantsLoop fuel cssVariables className rest vs
      | Some variantRule \<Rightarrow>
          (case ruleStyleLess fuel cssVariables variantRule of
             None \<Rightarrow> None
           | Some sl \<Rightarrow> variantsLoop fuel cssVariables className rest (set_prop vs breakpoint sl)))"

fun mediaLoop ::
  "(nat \<Rightarrow> 'id) \<Rightarrow> nat \<Rightarrow> (string \<rightharpoonup> string) \<Rightarrow> CSSRule list \<Rightarrow> (string \<times> CSSRule list) list
     \<Rightarrow> string list \<Rightarrow> nat \<times> (string \<rightharpoonup> 'id) \<times> 'id WebflowStyle list
     \<Rightarrow> (nat \<times> (string \<rightharpoonup> 'id) \<times> 'id WebflowStyle list) option" where
  "mediaLoop gen fuel cssVariables baseCSSRules mediaQueries [] st = Some st"
| "mediaLoop gen fuel cssVariables baseCSSRules mediaQueries (className # rest) (n, classToIdMap, styles) =
     (let uuid = gen n;
          classToIdMap1 = classToIdMap(className \<mapsto> uuid)
      in case (case findRuleForClass baseCSSRules className of
                 Some baseRule \<Rightarrow> ruleStyleLess fuel cssVariables baseRule
               | None \<Rightarrow> Some []) of
           None \<Rightarrow> None
         | Some baseStyleLess \<Rightarrow>
             (case variantsLoop fuel cssVariables className mediaQueries [] of
                None \<Rightarrow> None
              | Some vs \<Rightarrow>
                  mediaLoop gen fuel cssVariables baseCSSRules mediaQueries rest
                    (Suc n, classToIdMap1,
                     styles @ [\<lparr>style_id = uuid, style_name = className,
                                styleLess = baseStyleLess, variants = vs\<rparr>])))"

definition parseCSSWithMediaQueries ::
  "(nat \<Rightarrow> 'id) \<Rightarrow> nat \<Rightarrow> string \<Rightarrow> string list \<Rightarrow> nat
     \<Rightarrow> ((string \<rightharpoonup> 'id) \<times> 'id WebflowStyle list) option" where
  "parseCSSWithMediaQueries gen fuel cssString classNames n0 =
     (let cssVariables = extractCSSVariables cssString;
          baseCSSRules = parseCSSRules cssString;
          mediaQueries = parseMediaQueries cssString
      in case mediaLoop gen fuel cssVariables baseCSSRules mediaQueries classNames (n0, Map.empty, []) of
           None \<Rightarrow> None
         | Some (n, classToIdMap, styles) \<Rightarrow> Some (classToIdMap, styles))"

section \<open>The compiled list as a function of the document\<close>

text \<open>
  The definitions of this section are not part of the program: they describe
  its result, and the proofs below relate them to the program. \<open>weight\<close> is
  the number of nodes a document node contributes, \<open>kids\<close> the identifiers of
  the children emitted from a child list when \<open>n\<close> identifiers are in use,
  \<open>flat\<close> and \<open>flats\<close> the nodes emitted, in their final state.
\<close>

fun weight :: "DomNode \<Rightarrow> nat" where
  "weight (Element nm as ch) = Suc (sum_list (map weight ch))"
| "weight (Text d) = (if trim d = [] then 0 else 1)"
| "weight OtherNode = 0"

fun kids :: "(nat \<Rightarrow> 'id) \<Rightarrow> nat \<Rightarrow> DomNode list \<Rightarrow> 'id list" where
  "kids gen n [] = []"
| "kids gen n (c # cs) = (if weight c = 0 then [] else [gen n]) @ kids gen (n + weight c) cs"

fun flat ::
  "(nat \<Rightarrow> 'id) \<Rightarrow> (string \<rightharpoonup> string) \<Rightarrow> bool \<Rightarrow> nat \<Rightarrow> DomNode \<Rightarrow> 'id WebflowNode list"
and flats ::
  "(nat \<Rightarrow> 'id) \<Rightarrow> (string \<rightharpoonup> string) \<Rightarrow> bool \<Rightarrow> nat \<Rightarrow> DomNode list \<Rightarrow> 'id WebflowNode list"
where
  "flat gen m inside n (Element nm as ch) =
     set_children (newElementNode (gen n) m nm as inside) (kids gen (Suc n) ch)
       # flats gen m (toLowerCase nm = ''form'' \<or> inside) (Suc n) ch"
| "flat gen m inside n (Text d) = (if trim d = [] then [] else [WebflowTextNode (gen n) (trim d)])"
| "flat gen m inside n OtherNode = []"
| "flats gen m inside n [] = []"
| "flats gen m inside n (c # cs) = flat gen m inside n c @ flats gen m inside (n + weight c) cs"

text \<open>
  A node list is a \<open>tree\<close> with root \<open>r\<close> when it is the node \<open>r\<close> followed by
  a \<open>forest\<close> whose roots are that node's children, in order; a forest is a
  sequence of trees.
\<close>

inductive tree :: "'id WebflowNode list \<Rightarrow> 'id \<Rightarrow> bool"
  and forest :: "'id WebflowNode list \<Rightarrow> 'id list \<Rightarrow> bool" where
  forest_Nil: "forest [] []"
| forest_Cons: "tree t r \<Longrightarrow> forest f rs \<Longrightarrow> forest (t @ f) (r # rs)"
| tree_Node: "forest f (node_children x) \<Longrightarrow> tree (x # f) (node_id x)"

text \<open>
  The positions \<open>(i, j)\<close> of a node list where node \<open>j\<close> is named in the
  children list of node \<open>i\<close>.
\<close>

definition child_idx :: "'id WebflowNode list \<Rightarrow> (nat \<times> nat) set" where
  "child_idx nodes =
     {(i, j). i < length nodes \<and> j < length nodes \<and> node_id (nodes ! j) \<in> set (node_children (nodes ! i))}"

text \<open>Concrete inputs: a sequential identifier generator and a one-class map.\<close>

definition seq_ids :: "nat \<Rightarrow> nat" where
  "seq_ids n = n"

definition class_c_to_S :: "string \<rightharpoonup> string" where
  "class_c_to_S = [''c'' \<mapsto> ''S'']"

definition no_classes :: "string \<rightharpoonup> string" where
  "no_classes = Map.empty"

text \<open>The data of the text nodes below a document node, in document order.\<close>

fun texts_of :: "DomNode \<Rightarrow> string list" where
  "texts_of (Element nm as ch) = concat (map texts_of ch)"
| "texts_of (Text d) = [d]"
| "texts_of OtherNode = []"

text \<open>
  The documents \<open>htmlparser2\<close> builds for
  \<^verbatim>\<open><div class="c"><p>Hello</p></div>\<close>, for \<^verbatim>\<open><div>   </div>\<close> and for
  \<^verbatim>\<open><div> <p> Hello </p> </div>\<close>.
\<close>

definition hello_doc :: "DomNode list" where
  "hello_doc = [Element ''div'' [(''class'', ''c'')] [Element ''p'' [] [Text ''Hello'']]]"

definition blank_doc :: "DomNode list" where
  "blank_doc = [Element ''div'' [] [Text ''   '']]"

definition spaced_doc :: "DomNode list" where
  "spaced_doc = [Element ''div'' [] [Text '' '', Element ''p'' [] [Text '' Hello ''], Text '' '']]"

text \<open>
  The elements at and below a document node, in document order, each with its
  attributes and the lower-cased tags of its proper ancestors (nearest first);
  \<open>anc\<close> holds the ancestors of the node itself.
\<close>

fun elems_in :: "string list \<Rightarrow> DomNode \<Rightarrow> (string \<times> (string \<times> string) list \<times> string list) list" where
  "elems_in anc (Element nm as ch) =
     (nm, as, anc) # concat (map (elems_in (toLowerCase nm # anc)) ch)"
| "elems_in anc (Text d) = []"
| "elems_in anc OtherNode = []"

text \<open>
  The content elements that \<open>traverse\<close> finds at and below a document node, each
  with the lower-cased tags of its proper ancestors.
\<close>

fun content_in :: "string list \<Rightarrow> DomNode \<Rightarrow> (DomNode \<times> string list) list" where
  "content_in anc (Element nm as ch) =
     (let tag = toLowerCase nm
      in if tag = ''body'' then map (\<lambda>c. (c, tag # anc)) (filter isBodyContent ch)
         else if tag \<in> set DOCUMENT_STRUCTURE_TAGS then concat (map (content_in (tag # anc)) ch)
         else [(Element nm as ch, anc)])"
| "content_in anc (Text d) = []"
| "content_in anc OtherNode = []"

text \<open>The elements that are compiled, with their ancestors in the whole document.\<close>

definition compiled_elems :: "DomNode list \<Rightarrow> (string \<times> (string \<times> string) list \<times> string list) list" where
  "compiled_elems doc = concat (map (\<lambda>(c, a). elems_in a c) (concat (map (content_in []) doc)))"

text \<open>
  The documents for \<^verbatim>\<open><input type="text"><form><input type="text"></form>\<close>
  and for \<^verbatim>\<open><video controls src="a.mp4"></video>\<close>.
\<close>

definition form_doc :: "DomNode list" where
  "form_doc =
     [Element ''input'' [(''type'', ''text'')] [],
      Element ''form'' [] [Element ''input'' [(''type'', ''text'')] []]]"

definition video_doc :: "DomNode list" where
  "video_doc = [Element ''video'' [(''controls'', []), (''src'', ''a.mp4'')] []]"


text \<open>What an element node holds besides its identifier and its children.\<close>

definition shape :: "'id WebflowNode \<Rightarrow> string list \<times> WebflowNodeType \<times> string \<times> json" where
  "shape x = (classes x, ntype x, ntag x, ndata x)"

definition element_shape ::
  "(string \<rightharpoonup> string) \<Rightarrow> string \<Rightarrow> (string \<times> string) list \<Rightarrow> bool
     \<Rightarrow> string list \<times> WebflowNodeType \<times> string \<times> json" where
  "element_shape m nm as insideForm = shape (newElementNode () m nm as insideForm)"

definition is_digit10 :: "char \<Rightarrow> bool" where
  "is_digit10 c = (\<exists>d::nat. d < 10 \<and> c = char_of (48 + d))"

text \<open>
  The document for \<^verbatim>\<open><div><ul><li>a</li><li>b</li></ul></div><p>c</p>\<close>.
\<close>

definition nested_doc :: "DomNode list" where
  "nested_doc =
     [Element ''div'' [] [Element ''ul'' [] [Element ''li'' [] [Text ''a''], Element ''li'' [] [Text ''b'']]],
      Element ''p'' [] [Text ''c'']]"

section \<open>Subtrees and groups\<close>

text \<open>
  The identifiers of the subtree of \<open>r\<close> in a node list: what is reached from
  \<open>r\<close> through children lists, \<open>r\<close> included.
\<close>

definition desc :: "'id WebflowNode list \<Rightarrow> ('id \<times> 'id) set" where
  "desc nodes = {(a, b). \<exists>x \<in> set nodes. node_id x = a \<and> b \<in> set (node_children x)}"

definition subtree_ids :: "'id WebflowNode list \<Rightarrow> 'id \<Rightarrow> 'id set" where
  "subtree_ids nodes r = (desc nodes)\<^sup>* `` {r}"

text \<open>
  The greedy grouping of a sequence of subtrees, \<open>cur\<close> being the group under
  construction.
\<close>

fun group_trees :: "int \<Rightarrow> 'a list list \<Rightarrow> 'a list list \<Rightarrow> 'a list list list" where
  "group_trees mx [] cur = (if cur = [] then [] else [cur])"
| "group_trees mx (t # ts) cur =
     (if length (concat cur) > 0 \<and> int (length (concat cur) + length t) > mx
      then cur # group_trees mx ts [t]
      else group_trees mx ts (cur @ [t]))"

definition split_result :: "'id WebflowNode list \<Rightarrow> 'id split_state \<Rightarrow> 'id WebflowNode list list" where
  "split_result nodes st =
     (case st of (cur, curRoots, chunkIndex, chunks) \<Rightarrow>
        map chunk_nodes chunks @ (if cur = [] then [] else [filter (\<lambda>n. node_id n \<in> set cur) nodes]))"

section \<open>Style sheets used as inputs\<close>

text \<open>
  The example of the specification, the same with a fallback that holds
  parentheses, a style sheet whose custom property refers to itself, and two layouts of one style sheet with a media query: indented
  as in the repository's test of \<open>parseCSSWithMediaQueries\<close>, and flush left.
\<close>

definition root_css :: string where
  "root_css = '':root { --c: red; }  .x { color: var(--c); }''"

definition fallback_css :: string where
  "fallback_css = '':root { --c: red; } .x { color: var(--c, rgb(0,0,0)); }''"

definition cyclic_css :: string where
  "cyclic_css = '':root { --a: var(--a); } .x { color: var(--a); }''"

definition indented_media_css :: string where
  "indented_media_css =
     ''\<newline>  .t {\<newline>    color: red;\<newline>  }\<newline>\<newline>  @media (max-width: 767px) {\<newline>    .t {\<newline>      color: blue;\<newline>    }\<newline>  }\<newline>''"

definition flush_media_css :: string where
  "flush_media_css =
     ''.t {\<newline>  color: red;\<newline>}\<newline>\<newline>@media (max-width: 767px) {\<newline>  .t {\<newline>    color: blue;\<newline>  }\<newline>}\<newline>''"

section \<open>The tree compiler: refinement to the flat description\<close>

lemma process_flat:
  "processElement gen m (Element nm as ch) inside (n, nodes) =
     (gen n, (n + weight (Element nm as ch), nodes @ flat gen m inside n (Element nm as ch)))"
  "processChildren gen m cs inside' acc st =
     (acc @ kids gen (fst st) cs, (fst st + sum_list (map weight cs), snd st @ flats gen m inside' (fst st) cs))"
proof (induction gen m "Element nm as ch" inside "(n, nodes)" and gen m cs inside' acc st
    arbitrary: nm as ch n nodes rule: processElement_processChildren.induct)
  case (1 gen m nm as ch insideForm n allNodes)
  then show ?case
    by (simp add: Let_def list_update_append1 split: prod.splits)
next
  case (2 gen m inside childIds st)
  then show ?case by simp
next
  case (3 gen m nm as ch cs inside childIds st)
  obtain n nodes where st: "st = (n, nodes)" by (cases st)
  show ?case using 3 st by (simp add: Let_def split: prod.splits)
next
  case (4 gen m d cs inside childIds st)
  obtain n nodes where st: "st = (n, nodes)" by (cases st)
  show ?case using 4 st by (simp add: Let_def createTextNode_def split: prod.splits)
next
  case (5 gen m cs inside childIds st)
  then show ?case by simp
qed

lemma traverse_elements: "e \<in> set (traverse d) \<Longrightarrow> \<exists>nm as ch. e = Element nm as ch"
proof (induction d rule: traverse.induct)
  case (1 nm as ch)
  then show ?case
    by (auto simp: Let_def isBodyContent_def split: if_splits DomNode.splits)
qed simp_all

lemma content_elements:
  "e \<in> set (extractContentElements doc) \<Longrightarrow> \<exists>nm as ch. e = Element nm as ch"
  by (auto simp: extractContentElements_def dest: traverse_elements)

lemma compileLoop_flat:
  "(\<And>e. e \<in> set es \<Longrightarrow> \<exists>nm as ch. e = Element nm as ch) \<Longrightarrow>
   compileLoop gen m es roots (n, nodes) =
     (roots @ kids gen n es, (n + sum_list (map weight es), nodes @ flats gen m False n es))"
proof (induction es arbitrary: roots n nodes)
  case Nil
  then show ?case by simp
next
  case (Cons e es)
  from Cons.prems [of e] obtain nm as ch where e: "e = Element nm as ch" by auto
  have rest: "\<And>e'. e' \<in> set es \<Longrightarrow> \<exists>nm as ch. e' = Element nm as ch"
    using Cons.prems by simp
  show ?case
    using Cons.IH [OF rest] e by (simp add: process_flat(1) del: processElement.simps flat.simps)
qed

lemma compile_flat:
  "compileHTMLToNodes gen m doc n0 =
     (flats gen m False n0 (extractContentElements doc), kids gen n0 (extractContentElements doc))"
  using compileLoop_flat [of "extractContentElements doc" gen m "[]" n0 "[]"] content_elements
  by (simp add: compileHTMLToNodes_def)


lemmas eval_defs =
  compile_flat extractContentElements_def DOCUMENT_STRUCTURE_TAGS_def toLowerCase_def lowerChar_def
  Let_def newElementNode_def trim_def trimStart_def trimEnd_def isWhiteSpace_def getWebflowType_def
  table_lookup_def TAG_TO_TYPE_MAP_def extractClassNames_def attr_def split_ws.simps
  List.map_filter_def or_else_def

section \<open>Properties of single documents\<close>

text \<open>
  C7 (amended). Compiling \<^verbatim>\<open><div class="c"><p>Hello</p></div>\<close> with a map that
  sends class \<open>c\<close> to the style identifier \<open>S\<close> yields exactly three nodes, the
  two element nodes and the text node: a \<open>Block\<close> element for the \<open>div\<close> that
  carries \<open>S\<close> and has the paragraph as its one child, a \<open>Paragraph\<close> element
  whose one child is the text node, and the text node with the literal \<open>Hello\<close>.
  The root list names the \<open>div\<close> alone.
\<close>

theorem C7_hello:
  assumes "m ''c'' = Some S"
  shows "compileHTMLToNodes gen m hello_doc n0 =
     ([WebflowElementNode (gen n0) [S] Block ''div'' (buildData [(''class'', ''c'')] ''div'' Block)
         [gen (Suc n0)],
       WebflowElementNode (gen (Suc n0)) [] Paragraph ''p'' (buildData [] ''p'' Paragraph)
         [gen (Suc (Suc n0))],
       WebflowTextNode (gen (Suc (Suc n0))) ''Hello''],
      [gen n0])"
  using assms by (simp add: hello_doc_def eval_defs)

theorem C7_hello_witness:
  "class_c_to_S ''c'' = Some ''S'' \<and>
   compileHTMLToNodes seq_ids class_c_to_S hello_doc 0 =
     ([WebflowElementNode 0 [''S''] Block ''div'' (buildData [(''class'', ''c'')] ''div'' Block) [1],
       WebflowElementNode 1 [] Paragraph ''p'' (buildData [] ''p'' Paragraph) [2],
       WebflowTextNode 2 ''Hello''],
      [0])"
proof -
  have h: "class_c_to_S ''c'' = Some ''S''" by (simp add: class_c_to_S_def)
  show ?thesis using C7_hello [of class_c_to_S "''S''" seq_ids 0] h by (simp add: seq_ids_def)
qed

text \<open>
  C7 as stated asks for exactly two nodes; the text node is a node of the list
  as well, so the list has three.
\<close>

theorem C7_two_nodes_counterexample:
  "length (fst (compileHTMLToNodes seq_ids class_c_to_S hello_doc 0)) \<noteq> 2"
  by (simp add: hello_doc_def class_c_to_S_def eval_defs)

lemma trim_idem: "trim (trim s) = trim s"
proof (cases "trim s = []")
  case True
  have "trim [] = []" by (simp add: trim_def trimStart_def trimEnd_def)
  with True show ?thesis by simp
next
  case False
  define u where "u = dropWhile isWhiteSpace s"
  define w where "w = dropWhile isWhiteSpace (rev u)"
  have t: "trim s = rev w" by (simp add: trim_def trimStart_def trimEnd_def u_def w_def)
  from False t have wne: "w \<noteq> []" by simp
  then have hw: "\<not> isWhiteSpace (hd w)" unfolding w_def by (rule hd_dropWhile)
  have "\<exists>p. rev u = p @ w" unfolding w_def by (metis takeWhile_dropWhile_id)
  then obtain p where p: "rev u = p @ w" ..
  then have u: "u = rev w @ rev p" by (metis rev_append rev_rev_ident)
  from wne have rne: "rev w \<noteq> []" by simp
  from u rne have "hd (rev w) = hd u" by simp
  moreover have "u \<noteq> []" using u rne by simp
  then have "\<not> isWhiteSpace (hd u)" unfolding u_def by (rule hd_dropWhile)
  ultimately have h1: "\<not> isWhiteSpace (hd (rev w))" by simp
  have d1: "dropWhile isWhiteSpace (rev w) = rev w"
    using rne h1 by (cases "rev w") auto
  have d2: "dropWhile isWhiteSpace w = w" using wne hw by (cases w) auto
  show ?thesis by (simp add: t) (simp add: trim_def trimStart_def trimEnd_def d1 d2)
qed

lemma trim_nonblank: "trim s \<noteq> [] \<Longrightarrow> \<exists>c \<in> set (trim s). \<not> isWhiteSpace c"
proof -
  assume ne: "trim s \<noteq> []"
  define w where "w = dropWhile isWhiteSpace (rev (dropWhile isWhiteSpace s))"
  have t: "trim s = rev w" by (simp add: trim_def trimStart_def trimEnd_def w_def)
  with ne have wne: "w \<noteq> []" by simp
  then have "\<not> isWhiteSpace (hd w)" unfolding w_def by (rule hd_dropWhile)
  moreover have "hd w \<in> set (trim s)" using wne t by simp
  ultimately show ?thesis by blast
qed

lemma is_text_new [simp]: "\<not> is_text (set_children (newElementNode i m nm as b) ks)"
  by (simp add: newElementNode_def Let_def)

lemma flat_texts:
  "map v (filter is_text (flat gen m inside n d)) = filter (\<lambda>s. s \<noteq> []) (map trim (texts_of d))"
  "map v (filter is_text (flats gen m inside n ds)) =
     filter (\<lambda>s. s \<noteq> []) (map trim (concat (map texts_of ds)))"
  by (induction gen m inside n d and gen m inside n ds rule: flat_flats.induct) simp_all

text \<open>
  C8. The text nodes of the compiled list are, in document order, the trimmed
  data of the text nodes of the content elements, those that trim to the empty
  string left out. So every text node emitted is non-empty, is its own trim
  and holds a character that is no white space; and \<^verbatim>\<open><div>   </div>\<close>
  compiles to the \<open>div\<close> alone, with no children.
\<close>

theorem C8_no_blank_text:
  "map v (filter is_text (fst (compileHTMLToNodes gen m doc n0))) =
     filter (\<lambda>s. s \<noteq> []) (map trim (concat (map texts_of (extractContentElements doc)))) \<and>
   (\<forall>x \<in> set (fst (compileHTMLToNodes gen m doc n0)).
      is_text x \<longrightarrow> v x \<noteq> [] \<and> trim (v x) = v x \<and> (\<exists>c \<in> set (v x). \<not> isWhiteSpace c)) \<and>
   compileHTMLToNodes gen m blank_doc n0 =
     ([WebflowElementNode (gen n0) [] Block ''div'' (buildData [] ''div'' Block) []], [gen n0])"
proof (intro conjI ballI impI)
  show a: "map v (filter is_text (fst (compileHTMLToNodes gen m doc n0))) =
     filter (\<lambda>s. s \<noteq> []) (map trim (concat (map texts_of (extractContentElements doc))))"
    by (simp add: compile_flat flat_texts)
  show "compileHTMLToNodes gen m blank_doc n0 =
     ([WebflowElementNode (gen n0) [] Block ''div'' (buildData [] ''div'' Block) []], [gen n0])"
    by (simp add: blank_doc_def eval_defs)
  fix x assume x: "x \<in> set (fst (compileHTMLToNodes gen m doc n0))" and tx: "is_text x"
  then have "v x \<in> set (map v (filter is_text (fst (compileHTMLToNodes gen m doc n0))))" by simp
  then have "v x \<in> set (filter (\<lambda>s. s \<noteq> [])
      (map trim (concat (map texts_of (extractContentElements doc)))))"
    by (simp only: a)
  then obtain d where d: "v x = trim d" "trim d \<noteq> []" by auto
  show "v x \<noteq> []" using d by simp
  show "trim (v x) = v x" using d by (simp add: trim_idem)
  show "\<exists>c \<in> set (v x). \<not> isWhiteSpace c" using d trim_nonblank [of d] by simp
qed

theorem C8_no_blank_text_witness:
  "WebflowTextNode (2::nat) ''Hello'' \<in> set (fst (compileHTMLToNodes seq_ids no_classes spaced_doc 0)) \<and>
   is_text (WebflowTextNode (2::nat) ''Hello'') \<and>
   trim ''Hello'' = ''Hello'' \<and>
   map v (filter is_text (fst (compileHTMLToNodes seq_ids no_classes spaced_doc 0))) = [''Hello'']"
proof -
  have mem: "WebflowTextNode (2::nat) ''Hello'' \<in> set (fst (compileHTMLToNodes seq_ids no_classes spaced_doc 0))"
    by (simp add: spaced_doc_def seq_ids_def eval_defs)
  have tx: "is_text (WebflowTextNode (2::nat) ''Hello'')" by simp
  from C8_no_blank_text [of seq_ids no_classes spaced_doc 0]
  have all: "\<forall>x \<in> set (fst (compileHTMLToNodes seq_ids no_classes spaced_doc 0)).
      is_text x \<longrightarrow> v x \<noteq> [] \<and> trim (v x) = v x \<and> (\<exists>c \<in> set (v x). \<not> isWhiteSpace c)"
    and texts: "map v (filter is_text (fst (compileHTMLToNodes seq_ids no_classes spaced_doc 0))) =
     filter (\<lambda>s. s \<noteq> []) (map trim (concat (map texts_of (extractContentElements spaced_doc))))"
    by blast+
  from all mem tx have "trim ''Hello'' = ''Hello''" by fastforce
  moreover have "filter (\<lambda>s. s \<noteq> []) (map trim (concat (map texts_of (extractContentElements spaced_doc))))
     = [''Hello'']"
    by (simp add: spaced_doc_def eval_defs)
  ultimately show ?thesis using mem tx texts by simp
qed

lemma elems_in_anc:
  "elems_in (anc @ a) d = map (\<lambda>(nm, as, anc'). (nm, as, anc' @ a)) (elems_in anc d)"
proof (induction anc d rule: elems_in.induct)
  case (1 anc nm as ch)
  have "\<And>c. c \<in> set ch \<Longrightarrow> elems_in (toLowerCase nm # anc @ a) c =
      map (\<lambda>(nm, as, anc'). (nm, as, anc' @ a)) (elems_in (toLowerCase nm # anc) c)"
    using 1 [of _] by (metis append_Cons)
  then show ?case by (simp add: map_concat cong: map_cong)
qed simp_all

lemma content_in_fst: "map fst (content_in anc d) = traverse d"
proof (induction anc d rule: content_in.induct)
  case (1 anc nm as ch)
  then show ?case by (simp add: Let_def map_concat comp_def cong: map_cong)
qed simp_all

lemma content_in_anc:
  "(c, a) \<in> set (content_in anc d) \<Longrightarrow> set a \<subseteq> set anc \<union> set DOCUMENT_STRUCTURE_TAGS"
proof (induction anc d rule: content_in.induct)
  case (1 anc nm as ch)
  show ?case
  proof (cases "toLowerCase nm = ''body''")
    case True
    with 1 show ?thesis by (auto simp: Let_def DOCUMENT_STRUCTURE_TAGS_def)
  next
    case nb: False
    show ?thesis
    proof (cases "toLowerCase nm \<in> set DOCUMENT_STRUCTURE_TAGS")
      case True
      with nb 1(2) obtain c' where c': "c' \<in> set ch" "(c, a) \<in> set (content_in (toLowerCase nm # anc) c')"
        by (auto simp: Let_def)
      from 1(1) [OF refl nb True c'] True show ?thesis by auto
    next
      case False
      with nb 1(2) show ?thesis by (auto simp: Let_def)
    qed
  qed
qed simp_all

lemma shape_new [simp]:
  "shape (set_children (newElementNode i m nm as b) ks) = element_shape m nm as b"
  by (simp add: newElementNode_def Let_def shape_def element_shape_def)

lemma flat_shapes:
  "map shape (filter (\<lambda>x. \<not> is_text x) (flat gen m (inside \<or> ''form'' \<in> set anc) n d)) =
     map (\<lambda>(nm, as, anc'). element_shape m nm as (inside \<or> ''form'' \<in> set anc'))
       (elems_in anc d)"
  "map shape (filter (\<lambda>x. \<not> is_text x) (flats gen m (inside \<or> ''form'' \<in> set anc) n ds)) =
     map (\<lambda>(nm, as, anc'). element_shape m nm as (inside \<or> ''form'' \<in> set anc'))
       (concat (map (elems_in anc) ds))"
proof (induction gen m "inside \<or> ''form'' \<in> set anc" n d and gen m "inside \<or> ''form'' \<in> set anc" n ds
    arbitrary: anc and anc rule: flat_flats.induct)
  case (1 gen m n nm as ch)
  have eq: "(toLowerCase nm = ''form'' \<or> inside \<or> ''form'' \<in> set anc) =
      (inside \<or> ''form'' \<in> set (toLowerCase nm # anc))" by auto
  show ?case using 1 [OF eq] by (simp add: eq del: set_simps)
qed simp_all

lemma no_form_struct: "''form'' \<notin> set DOCUMENT_STRUCTURE_TAGS"
  by (simp add: DOCUMENT_STRUCTURE_TAGS_def)

lemma content_no_form:
  assumes "(c, a) \<in> set (concat (map (content_in []) doc))"
  shows "''form'' \<notin> set a"
proof -
  from assms obtain d where "(c, a) \<in> set (content_in [] d)" by auto
  from content_in_anc [OF this] no_form_struct show ?thesis by auto
qed

lemma content_in_traverse:
  "map fst (concat (map (content_in []) doc)) = extractContentElements doc"
  by (simp add: extractContentElements_def map_concat comp_def content_in_fst)

lemma flats_shapes_content:
  assumes "\<And>c a. (c, a) \<in> set cas \<Longrightarrow> ''form'' \<notin> set a"
  shows "map shape (filter (\<lambda>x. \<not> is_text x) (flats gen m False n (map fst cas))) =
     map (\<lambda>(nm, as, anc'). element_shape m nm as (''form'' \<in> set anc'))
       (concat (map (\<lambda>(c, a). elems_in a c) cas))"
  using assms
proof (induction cas arbitrary: n)
  case Nil
  then show ?case by simp
next
  case (Cons ca cas)
  obtain c a where ca: "ca = (c, a)" by (cases ca)
  have nf: "''form'' \<notin> set a" using Cons.prems [of c a] ca by simp
  have 1: "map shape (filter (\<lambda>x. \<not> is_text x) (flat gen m False n c)) =
     map (\<lambda>(nm, as, anc'). element_shape m nm as (''form'' \<in> set anc')) (elems_in [] c)"
    using flat_shapes(1) [of gen m False "[]" n c] by simp
  have 2: "map (\<lambda>(nm, as, anc'). element_shape m nm as (''form'' \<in> set anc')) (elems_in a c)
     = map (\<lambda>(nm, as, anc'). element_shape m nm as (''form'' \<in> set anc')) (elems_in [] c)"
    using elems_in_anc [of "[]" a c] nf by (simp add: comp_def case_prod_unfold)
  have 3: "map shape (filter (\<lambda>x. \<not> is_text x) (flats gen m False (n + weight c) (map fst cas))) =
     map (\<lambda>(nm, as, anc'). element_shape m nm as (''form'' \<in> set anc'))
       (concat (map (\<lambda>(c, a). elems_in a c) cas))"
  proof (rule Cons.IH)
    fix c' a' assume "(c', a') \<in> set cas"
    then show "''form'' \<notin> set a'" using Cons.prems [of c' a'] by simp
  qed
  show ?case by (simp add: ca 1 2 3)
qed

lemma compile_shapes:
  "map shape (filter (\<lambda>x. \<not> is_text x) (fst (compileHTMLToNodes gen m doc n0))) =
     map (\<lambda>(nm, as, anc). element_shape m nm as (''form'' \<in> set anc))
       (compiled_elems doc)"
  using flats_shapes_content [of "concat (map (content_in []) doc)" gen m n0] content_no_form [of _ _ doc]
  by (simp add: compile_flat compiled_elems_def content_in_traverse)

lemma ntype_shape: "ntype x = fst (snd (shape x))"
  by (simp add: shape_def)

lemma getType_form_tags:
  assumes "tag \<in> set [''input'', ''textarea'', ''select'', ''label'']"
  shows "getWebflowType tag as False = Block"
    and "getWebflowType tag as True \<in> set [FormButton, FormRadioInput, FormCheckboxInput,
           FormTextInput, FormTextarea, FormSelect, FormBlockLabel]"
  using assms by (auto simp: getWebflowType_def Let_def)

text \<open>
  C4. The types of the element nodes of the compiled list are, in document
  order, \<open>getWebflowType\<close> of each compiled element with the flag "some proper
  ancestor in the document is a \<open>form\<close>". For the tags \<open>input\<close>, \<open>textarea\<close>,
  \<open>select\<close> and \<open>label\<close> the type is \<open>Block\<close> without that flag and one of the
  form types with it; an \<open>input\<close> of type \<open>text\<close> is \<open>Block\<close> outside a form
  and \<open>FormTextInput\<close> inside one.
\<close>

theorem C4_form_context:
  "map ntype (filter (\<lambda>x. \<not> is_text x) (fst (compileHTMLToNodes gen m doc n0))) =
     map (\<lambda>(nm, as, anc). getWebflowType (toLowerCase nm) as (''form'' \<in> set anc)) (compiled_elems doc) \<and>
   (tag \<in> set [''input'', ''textarea'', ''select'', ''label''] \<longrightarrow>
      getWebflowType tag as False = Block \<and>
      getWebflowType tag as True \<in> set [FormButton, FormRadioInput, FormCheckboxInput,
        FormTextInput, FormTextarea, FormSelect, FormBlockLabel]) \<and>
   (attr as ''type'' = Some ''text'' \<longrightarrow>
      getWebflowType ''input'' as False = Block \<and> getWebflowType ''input'' as True = FormTextInput)"
proof (intro conjI impI)
  have "map ntype (filter (\<lambda>x. \<not> is_text x) (fst (compileHTMLToNodes gen m doc n0))) =
      map (fst \<circ> snd) (map shape (filter (\<lambda>x. \<not> is_text x) (fst (compileHTMLToNodes gen m doc n0))))"
    by (simp add: shape_def)
  also have "\<dots> = map (\<lambda>(nm, as, anc). getWebflowType (toLowerCase nm) as (''form'' \<in> set anc))
      (compiled_elems doc)"
    by (simp only: compile_shapes) (simp add: shape_def element_shape_def newElementNode_def Let_def comp_def case_prod_unfold)
  finally show "map ntype (filter (\<lambda>x. \<not> is_text x) (fst (compileHTMLToNodes gen m doc n0))) =
     map (\<lambda>(nm, as, anc). getWebflowType (toLowerCase nm) as (''form'' \<in> set anc)) (compiled_elems doc)" .
next
  assume "tag \<in> set [''input'', ''textarea'', ''select'', ''label'']"
  then show "getWebflowType tag as False = Block"
    and "getWebflowType tag as True \<in> set [FormButton, FormRadioInput, FormCheckboxInput,
        FormTextInput, FormTextarea, FormSelect, FormBlockLabel]"
    by (rule getType_form_tags)+
next
  assume t: "attr as ''type'' = Some ''text''"
  then show "getWebflowType ''input'' as False = Block"
    by (simp add: getWebflowType_def Let_def)
  from t show "getWebflowType ''input'' as True = FormTextInput"
    by (simp add: getWebflowType_def Let_def or_else_def toLowerCase_def lowerChar_def)
qed

theorem C4_form_context_witness:
  "''input'' \<in> set [''input'', ''textarea'', ''select'', ''label''] \<and>
   attr [(''type'', ''text'')] ''type'' = Some ''text'' \<and>
   getWebflowType ''input'' [(''type'', ''text'')] False = Block \<and>
   getWebflowType ''input'' [(''type'', ''text'')] True = FormTextInput \<and>
   compiled_elems form_doc =
     [(''input'', [(''type'', ''text'')], []), (''form'', [], []),
      (''input'', [(''type'', ''text'')], [''form''])] \<and>
   map ntype (filter (\<lambda>x. \<not> is_text x) (fst (compileHTMLToNodes seq_ids no_classes form_doc 0))) =
     [Block, FormForm, FormTextInput]"
proof -
  have h1: "''input'' \<in> set [''input'', ''textarea'', ''select'', ''label'']" by simp
  have h2: "attr [(''type'', ''text'')] ''type'' = Some ''text''" by (simp add: attr_def)
  have ce: "compiled_elems form_doc =
     [(''input'', [(''type'', ''text'')], []), (''form'', [], []),
      (''input'', [(''type'', ''text'')], [''form''])]"
    by (simp add: compiled_elems_def form_doc_def DOCUMENT_STRUCTURE_TAGS_def toLowerCase_def
        lowerChar_def Let_def)
  note c4 = C4_form_context [of seq_ids no_classes form_doc 0 "''input''" "[(''type'', ''text'')]"]
  from c4 h2 have a: "getWebflowType ''input'' [(''type'', ''text'')] False = Block"
    and b: "getWebflowType ''input'' [(''type'', ''text'')] True = FormTextInput" by blast+
  from c4 have "map ntype (filter (\<lambda>x. \<not> is_text x) (fst (compileHTMLToNodes seq_ids no_classes form_doc 0))) =
     map (\<lambda>(nm, as, anc). getWebflowType (toLowerCase nm) as (''form'' \<in> set anc)) (compiled_elems form_doc)"
    by blast
  also have "\<dots> = [Block, FormForm, FormTextInput]"
    by (simp add: ce a b) (simp add: eval_defs)
  finally show ?thesis using h1 h2 a b ce by simp
qed

section \<open>Attributes\<close>

lemma ws_code: "isWhiteSpace c \<Longrightarrow> (of_char c :: nat) \<in> {9, 10, 11, 12, 13, 32, 160}"
  by (auto simp: isWhiteSpace_def)

lemma digit_char:
  fixes d :: nat
  assumes "d < 10"
  shows "digitVal (char_of (48 + d)) = Some d"
    and "\<not> isWhiteSpace (char_of (48 + d))"
    and "char_of (48 + d) \<noteq> CHR ''-''" and "char_of (48 + d) \<noteq> CHR ''+''"
    and "char_of (48 + d) \<noteq> CHR ''x''" and "char_of (48 + d) \<noteq> CHR ''X''"
proof -
  have o: "(of_char (char_of (48 + d)) :: nat) = 48 + d" using assms by simp
  show "digitVal (char_of (48 + d)) = Some d" using assms by (simp add: digitVal_def o)
  show "\<not> isWhiteSpace (char_of (48 + d))"
    using ws_code [of "char_of (48 + d)"] assms by (auto simp: o)
  have ne: "\<And>c. (of_char c :: nat) \<noteq> 48 + d \<Longrightarrow> char_of (48 + d) \<noteq> c" using o by auto
  show "char_of (48 + d) \<noteq> CHR ''-''" using assms by (intro ne) simp
  show "char_of (48 + d) \<noteq> CHR ''+''" using assms by (intro ne) simp
  show "char_of (48 + d) \<noteq> CHR ''x''" using assms by (intro ne) simp
  show "char_of (48 + d) \<noteq> CHR ''X''" using assms by (intro ne) simp
qed

lemma digit10_props:
  assumes "is_digit10 c"
  shows "c \<noteq> CHR ''x''" "c \<noteq> CHR ''X''" "c \<noteq> CHR ''-''" "c \<noteq> CHR ''+''"
    "\<not> isWhiteSpace c" "isRadixDigit 10 c"
proof -
  from assms obtain d :: nat where d: "d < 10" "c = char_of (48 + d)"
    by (auto simp: is_digit10_def)
  show "c \<noteq> CHR ''x''" "c \<noteq> CHR ''X''" "c \<noteq> CHR ''-''" "c \<noteq> CHR ''+''" "\<not> isWhiteSpace c"
    using digit_char [OF d(1)] d(2) by simp_all
  show "isRadixDigit 10 c" using digit_char(1) [OF d(1)] d by (simp add: isRadixDigit_def)
qed

lemma show_nat_digits: "show_nat n \<noteq> [] \<and> (\<forall>c \<in> set (show_nat n). is_digit10 c)"
proof (induction n rule: show_nat.induct)
  case (1 n)
  show ?case
  proof (cases "n < 10")
    case True
    then show ?thesis by (subst (1 2) show_nat.simps) (auto simp: is_digit10_def)
  next
    case False
    have "n mod 10 < 10" by simp
    then have "is_digit10 (char_of (48 + n mod 10))" unfolding is_digit10_def by blast
    with False 1 show ?thesis by (subst (1 2) show_nat.simps) auto
  qed
qed

lemma digitsValue_snoc: "digitsValue r (ds @ [c]) = digitsValue r ds * r + the (digitVal c)"
  by (simp add: digitsValue_def)

lemma show_nat_value: "digitsValue 10 (show_nat n) = n"
proof (induction n rule: show_nat.induct)
  case (1 n)
  show ?case
  proof (cases "n < 10")
    case True
    then show ?thesis
      by (subst show_nat.simps) (simp add: digitsValue_def digit_char(1))
  next
    case False
    have "n mod 10 < 10" by simp
    then have "digitVal (char_of (48 + n mod 10)) = Some (n mod 10)" by (rule digit_char(1))
    with False 1 show ?thesis
      by (subst show_nat.simps) (simp add: digitsValue_snoc)
  qed
qed

lemma parseInt_show_nat: "parseInt (Some (show_nat n)) = toNumber False n"
proof -
  let ?s = "show_nat n"
  from show_nat_digits [of n] have ne: "?s \<noteq> []" and dg: "\<And>c. c \<in> set ?s \<Longrightarrow> is_digit10 c"
    by auto
  obtain c cs where s: "?s = c # cs" using ne by (cases ?s) auto
  have c: "is_digit10 c" using dg [of c] s by simp
  have ts: "trimStart ?s = ?s" using s digit10_props(5) [OF c] by (simp add: trimStart_def)
  have nm: "\<not> startsWith ?s ''-''" "\<not> startsWith ?s ''+''"
    using s digit10_props(3,4) [OF c] by simp_all
  have nx: "\<not> startsWith ?s ''0x''" "\<not> startsWith ?s ''0X''"
  proof -
    have "cs \<noteq> [] \<Longrightarrow> hd cs \<noteq> CHR ''x'' \<and> hd cs \<noteq> CHR ''X''"
      using dg [of "hd cs"] s digit10_props(1,2) [of "hd cs"] by simp
    then show "\<not> startsWith ?s ''0x''" "\<not> startsWith ?s ''0X''"
      using s by (cases cs; simp)+
  qed
  have "\<And>c. c \<in> set ?s \<Longrightarrow> isRadixDigit 10 c"
    using dg digit10_props(6) by blast
  then have tw: "takeWhile (isRadixDigit 10) ?s = ?s" by (simp add: takeWhile_eq_all_conv)
  show ?thesis
    using ne by (simp add: parseInt_def ts nm nx tw show_nat_value Let_def)
qed

text \<open>An integer up to \<open>2 ^ 53\<close> is a double.\<close>

lemma bitLength_less: "n < 2 ^ m \<Longrightarrow> bitLength n \<le> m"
proof (induction m arbitrary: n)
  case 0
  then show ?case by (simp add: bitLength.simps)
next
  case (Suc m)
  show ?case
  proof (cases "n = 0")
    case True
    then show ?thesis by (simp add: bitLength.simps)
  next
    case False
    from Suc.prems have "n div 2 < 2 ^ m" by simp
    from Suc.IH [OF this] False show ?thesis by (subst bitLength.simps) simp
  qed
qed

lemma bitLength_power: "bitLength (2 ^ m) = Suc m"
proof (induction m)
  case 0
  show ?case by (simp add: bitLength.simps)
next
  case (Suc m)
  then show ?case by (subst bitLength.simps) simp
qed

lemma toNumber_exact:
  assumes "k \<le> 2 ^ 53"
  shows "toNumber neg k = Num (if neg then - int k else int k)"
proof (cases "k = 2 ^ 53")
  case True
  have "bitLength k = 54" using bitLength_power [of 53] True by simp
  then have "roundToDouble k = Some k"
    using True by (simp add: roundToDouble_def Let_def)
  then show ?thesis by (simp add: toNumber_def)
next
  case False
  with assms have "k < 2 ^ 53" by simp
  from bitLength_less [OF this] have "roundToDouble k = Some k"
    by (simp add: roundToDouble_def)
  then show ?thesis by (simp add: toNumber_def)
qed

lemma maxlength_input:
  assumes "attr as ''type'' \<notin> Some ` set [''submit'', ''button'', ''radio'', ''checkbox'']"
  shows "get_prop (extractAttributes as ''input'') ''maxlength'' =
     Some (JNum (parseInt_or (attr as ''maxlength'') (Num 256)))"
proof -
  have "or_else (attr as ''type'') ''text'' \<notin> set [''submit'', ''button'', ''radio'', ''checkbox'']"
    using assms by (auto simp: or_else_def split: option.splits)
  then show ?thesis by (simp add: extractAttributes_def get_prop_def Let_def)
qed

lemma maxlength_textarea:
  "get_prop (extractAttributes as ''textarea'') ''maxlength'' =
     Some (JNum (parseInt_or (attr as ''maxlength'') (Num 5000)))"
  by (simp add: extractAttributes_def get_prop_def Let_def)

lemma parseInt_or_cases:
  "parseInt_or x d = (if parseInt x = NaN \<or> parseInt x = Num 0 then d else parseInt x)"
  by (simp add: parseInt_or_def Let_def)

text \<open>
  C10 (amended). For an \<open>input\<close> whose \<open>type\<close> attribute is none of \<open>submit\<close>,
  \<open>button\<close>, \<open>radio\<close> and \<open>checkbox\<close>, the attribute bag holds a \<open>maxlength\<close>:
  the number that \<open>parseInt\<close> reads from the \<open>maxlength\<close> attribute, and 256
  when the attribute is absent, when \<open>parseInt\<close> reads no number from it, or
  when the number read is zero. For a \<open>textarea\<close> the same holds with 5000.
  \<open>parseInt\<close> reads no number from an absent attribute; from the decimal
  numeral of \<open>k\<close> it reads the double nearest to \<open>k\<close>, which is \<open>k\<close> itself for
  every \<open>k\<close> up to \<open>2 ^ 53\<close>.
\<close>

theorem C10_maxlength:
  "(attr as ''type'' \<notin> Some ` set [''submit'', ''button'', ''radio'', ''checkbox''] \<longrightarrow>
      get_prop (extractAttributes as ''input'') ''maxlength'' =
        Some (JNum (if parseInt (attr as ''maxlength'') = NaN \<or> parseInt (attr as ''maxlength'') = Num 0
                    then Num 256 else parseInt (attr as ''maxlength'')))) \<and>
   get_prop (extractAttributes as ''textarea'') ''maxlength'' =
     Some (JNum (if parseInt (attr as ''maxlength'') = NaN \<or> parseInt (attr as ''maxlength'') = Num 0
                 then Num 5000 else parseInt (attr as ''maxlength''))) \<and>
   parseInt None = NaN \<and>
   parseInt (Some (show_nat k)) = toNumber False k \<and>
   (k \<le> 2 ^ 53 \<longrightarrow> toNumber False k = Num (int k))"
proof (intro conjI impI)
  assume h: "attr as ''type'' \<notin> Some ` set [''submit'', ''button'', ''radio'', ''checkbox'']"
  show "get_prop (extractAttributes as ''input'') ''maxlength'' =
        Some (JNum (if parseInt (attr as ''maxlength'') = NaN \<or> parseInt (attr as ''maxlength'') = Num 0
                    then Num 256 else parseInt (attr as ''maxlength'')))"
    using maxlength_input [OF h] by (simp only: parseInt_or_cases)
next
  show "get_prop (extractAttributes as ''textarea'') ''maxlength'' =
     Some (JNum (if parseInt (attr as ''maxlength'') = NaN \<or> parseInt (attr as ''maxlength'') = Num 0
                 then Num 5000 else parseInt (attr as ''maxlength'')))"
    by (simp only: maxlength_textarea parseInt_or_cases)
next
  show "parseInt None = NaN"
    by (simp add: parseInt_def trimStart_def isWhiteSpace_def isRadixDigit_def digitVal_def)
next
  show "parseInt (Some (show_nat k)) = toNumber False k" by (rule parseInt_show_nat)
next
  assume "k \<le> 2 ^ 53"
  then show "toNumber False k = Num (int k)" by (simp add: toNumber_exact)
qed

lemma show_nat_40: "show_nat 40 = ''40''"
  by code_simp

text \<open>The first integer that is no double: \<open>2 ^ 53 + 1\<close> is read as \<open>2 ^ 53\<close>.\<close>

lemma digit_chars:
  "char_of (48 :: nat) = CHR ''0''" "char_of (49 :: nat) = CHR ''1''"
  "char_of (50 :: nat) = CHR ''2''" "char_of (51 :: nat) = CHR ''3''"
  "char_of (52 :: nat) = CHR ''4''" "char_of (53 :: nat) = CHR ''5''"
  "char_of (54 :: nat) = CHR ''6''" "char_of (55 :: nat) = CHR ''7''"
  "char_of (56 :: nat) = CHR ''8''" "char_of (57 :: nat) = CHR ''9''"
  by code_simp+

lemma show_nat_above: "show_nat 9007199254740993 = ''9007199254740993''"
  by (simp add: show_nat.simps digit_chars)

lemma bitLength_above: "bitLength 9007199254740993 = 54"
  by (simp add: bitLength.simps)

lemma toNumber_above: "toNumber False 9007199254740993 = Num 9007199254740992"
  by (simp add: toNumber_def roundToDouble_def bitLength_above Let_def)

theorem C10_maxlength_witness:
  "attr [(''type'', ''email''), (''maxlength'', ''40'')] ''type''
      \<notin> Some ` set [''submit'', ''button'', ''radio'', ''checkbox''] \<and>
   (40 :: nat) \<le> 2 ^ 53 \<and>
   get_prop (extractAttributes [(''type'', ''email''), (''maxlength'', ''40'')] ''input'') ''maxlength''
     = Some (JNum (Num 40)) \<and>
   get_prop (extractAttributes [(''type'', ''email''), (''maxlength'', ''40'')] ''textarea'') ''maxlength''
     = Some (JNum (Num 40)) \<and>
   get_prop (extractAttributes [(''maxlength'', ''9007199254740993'')] ''textarea'') ''maxlength''
     = Some (JNum (Num 9007199254740992))"
proof -
  let ?as = "[(''type'', ''email''), (''maxlength'', ''40'')]"
  let ?bs = "[(''maxlength'', ''9007199254740993'')]"
  have h: "attr ?as ''type'' \<notin> Some ` set [''submit'', ''button'', ''radio'', ''checkbox'']"
    by (simp add: attr_def)
  have k: "(40 :: nat) \<le> 2 ^ 53" by simp
  have m: "attr ?as ''maxlength'' = Some (show_nat 40)" by (simp add: attr_def show_nat_40)
  have n: "attr ?bs ''maxlength'' = Some (show_nat 9007199254740993)"
    by (simp add: attr_def show_nat_above)
  from C10_maxlength [of ?as 40] h k m
  have a: "get_prop (extractAttributes ?as ''input'') ''maxlength'' = Some (JNum (Num 40))"
    and b: "get_prop (extractAttributes ?as ''textarea'') ''maxlength'' = Some (JNum (Num 40))"
    by simp_all
  from C10_maxlength [of ?bs 9007199254740993] n
  have c: "get_prop (extractAttributes ?bs ''textarea'') ''maxlength'' =
      Some (JNum (Num 9007199254740992))"
    by (simp add: toNumber_above)
  from h k a b c show ?thesis by simp
qed

text \<open>
  C10 as stated gives the integer value of the attribute whenever it is a
  number; for \<open>maxlength="0"\<close> the number read is 0 and the bag holds 256.
\<close>

theorem C10_zero_counterexample:
  "parseInt (attr [(''maxlength'', ''0'')] ''maxlength'') = Num 0 \<and>
   get_prop (extractAttributes [(''maxlength'', ''0'')] ''input'') ''maxlength'' = Some (JNum (Num 256)) \<and>
   get_prop (extractAttributes [(''maxlength'', ''0'')] ''textarea'') ''maxlength'' = Some (JNum (Num 5000))"
proof -
  have p: "parseInt (Some ''0'') = Num 0"
    by (simp add: parseInt_def trimStart_def isWhiteSpace_def isRadixDigit_def digitVal_def
        digitsValue_def toNumber_def roundToDouble_def bitLength.simps)
  have a: "attr [(''maxlength'', ''0'')] ''maxlength'' = Some ''0''" by (simp add: attr_def)
  have t: "attr [(''maxlength'', ''0'')] ''type'' = None" by (simp add: attr_def)
  show ?thesis
    using maxlength_input [of "[(''maxlength'', ''0'')]"] maxlength_textarea [of "[(''maxlength'', ''0'')]"]
    by (simp add: a t p parseInt_or_def)
qed

section \<open>Custom elements\<close>

lemma custom_type:
  assumes "map_of TAG_TO_TYPE_MAP tag = None" and "tag \<notin> set [''constructor'', ''__proto__'']"
  shows "getWebflowType tag as b = DOM"
proof -
  have "tag \<notin> set [''input'', ''textarea'', ''select'', ''label'']"
    using assms(1) by (auto simp: TAG_TO_TYPE_MAP_def)
  then show ?thesis using assms by (simp add: getWebflowType_def table_lookup_def)
qed

text \<open>
  C5 (amended). The elements that are compiled are the content elements that
  \<open>extractContentElements\<close> finds (the element children, other than \<open>script\<close>
  and \<open>style\<close>, of a \<open>body\<close>, and outside a \<open>body\<close> the elements whose tag is
  no document-structure tag; in both cases reached from the top of the
  document through document-structure elements only) and all the elements
  below them; \<open>compiled_elems\<close> lists them in document
  order. The element nodes of the compiled list are as many, so an element
  that is not compiled, such as a \<open>title\<close> or a \<open>meta\<close> in the \<open>head\<close>, has no
  node. Let the \<open>k\<close>-th compiled element have a lower-cased tag that is
  no key of the tag-to-type table and is neither \<open>constructor\<close> nor
  \<open>__proto__\<close>. Then the \<open>k\<close>-th element node of the compiled list has type
  \<open>DOM\<close> and tag \<open>div\<close>, and its data holds the lower-cased tag and one
  name/value pair for each attribute other than \<open>class\<close> and \<open>id\<close>, in order,
  with the value as it is when it is non-empty and a single space when it is
  empty.
\<close>

theorem C5_custom_element:
  assumes "k < length (compiled_elems doc)"
    and "compiled_elems doc ! k = (nm, as, anc)"
    and "map_of TAG_TO_TYPE_MAP (toLowerCase nm) = None"
    and "toLowerCase nm \<notin> set [''constructor'', ''__proto__'']"
  shows "length (filter (\<lambda>x. \<not> is_text x) (fst (compileHTMLToNodes gen m doc n0))) =
      length (compiled_elems doc) \<and>
    shape (filter (\<lambda>x. \<not> is_text x) (fst (compileHTMLToNodes gen m doc n0)) ! k) =
      (List.map_filter m (extractClassNames as), DOM, ''div'',
       JObj [(''editable'', JBool True), (''tag'', JStr (toLowerCase nm)),
             (''attributes'', JArr
                (map (\<lambda>(n, x). JObj [(''name'', JStr n), (''value'', JStr (if x = [] then '' '' else x))])
                   (filter (\<lambda>(n, x). n \<noteq> ''class'' \<and> n \<noteq> ''id'') as)))])"
proof -
  let ?ns = "filter (\<lambda>x. \<not> is_text x) (fst (compileHTMLToNodes gen m doc n0))"
  have eq: "map shape ?ns =
      map (\<lambda>(nm, as, anc). element_shape m nm as (''form'' \<in> set anc)) (compiled_elems doc)"
    by (rule compile_shapes)
  then have len: "length ?ns = length (compiled_elems doc)" by (metis length_map)
  with assms(1) have k: "k < length ?ns" by simp
  have "shape (?ns ! k) = map shape ?ns ! k" using k by simp
  also have "\<dots> = element_shape m nm as (''form'' \<in> set anc)"
    using assms(1,2) by (simp add: eq)
  also have "\<dots> = (List.map_filter m (extractClassNames as), DOM, ''div'',
       JObj [(''editable'', JBool True), (''tag'', JStr (toLowerCase nm)),
             (''attributes'', JArr
                (map (\<lambda>(n, x). JObj [(''name'', JStr n), (''value'', JStr (if x = [] then '' '' else x))])
                   (filter (\<lambda>(n, x). n \<noteq> ''class'' \<and> n \<noteq> ''id'') as)))])"
    using custom_type [OF assms(3,4)]
    by (simp add: element_shape_def shape_def newElementNode_def Let_def buildData_def htmlAttributes_def)
  finally show ?thesis using len by simp
qed

theorem C5_custom_element_witness:
  "0 < length (compiled_elems video_doc) \<and>
   compiled_elems video_doc ! 0 = (''video'', [(''controls'', []), (''src'', ''a.mp4'')], []) \<and>
   map_of TAG_TO_TYPE_MAP (toLowerCase ''video'') = None \<and>
   toLowerCase ''video'' \<notin> set [''constructor'', ''__proto__''] \<and>
   shape (filter (\<lambda>x. \<not> is_text x) (fst (compileHTMLToNodes seq_ids no_classes video_doc 0)) ! 0) =
      ([], DOM, ''div'',
       JObj [(''editable'', JBool True), (''tag'', JStr ''video''),
             (''attributes'', JArr
                [JObj [(''name'', JStr ''controls''), (''value'', JStr '' '')],
                 JObj [(''name'', JStr ''src''), (''value'', JStr ''a.mp4'')]])])"
proof -
  have ce: "compiled_elems video_doc = [(''video'', [(''controls'', []), (''src'', ''a.mp4'')], [])]"
    by (simp add: compiled_elems_def video_doc_def DOCUMENT_STRUCTURE_TAGS_def toLowerCase_def
        lowerChar_def Let_def)
  have h1: "0 < length (compiled_elems video_doc)" by (simp add: ce)
  have h2: "compiled_elems video_doc ! 0 = (''video'', [(''controls'', []), (''src'', ''a.mp4'')], [])"
    by (simp add: ce)
  have lc: "toLowerCase ''video'' = ''video''" by (simp add: toLowerCase_def lowerChar_def)
  have h3: "map_of TAG_TO_TYPE_MAP (toLowerCase ''video'') = None"
    by (simp add: lc TAG_TO_TYPE_MAP_def)
  have h4: "toLowerCase ''video'' \<notin> set [''constructor'', ''__proto__'']" by (simp add: lc)
  from C5_custom_element [OF h1 h2 h3 h4, of seq_ids no_classes 0]
  show ?thesis using h1 h2 h3 h4
    by (simp add: lc no_classes_def extractClassNames_def attr_def List.map_filter_def)
qed

text \<open>
  C5 as stated reproduces every attribute value verbatim; the empty value of
  \<open>controls\<close> in \<^verbatim>\<open><video controls src="a.mp4">\<close> comes out as a single space.
\<close>

theorem C5_verbatim_counterexample:
  "compileHTMLToNodes seq_ids no_classes video_doc 0 =
     ([WebflowElementNode 0 [] DOM ''div''
         (JObj [(''editable'', JBool True), (''tag'', JStr ''video''),
                (''attributes'', JArr
                   [JObj [(''name'', JStr ''controls''), (''value'', JStr '' '')],
                    JObj [(''name'', JStr ''src''), (''value'', JStr ''a.mp4'')]])])
         []],
      [0])"
  by (simp add: video_doc_def no_classes_def seq_ids_def eval_defs buildData_def htmlAttributes_def)

text \<open>
  The two unknown tags that the lookup finds on \<open>Object.prototype\<close> do not get
  the type \<open>DOM\<close>.
\<close>

lemma inherited_type:
  "getWebflowType ''constructor'' as b = Inherited ''constructor''"
  "getWebflowType ''__proto__'' as b = Inherited ''__proto__''"
  by (simp_all add: getWebflowType_def table_lookup_def TAG_TO_TYPE_MAP_def)

text \<open>
  A document-structure element outside the content is not compiled: the
  \<open>title\<close> of \<^verbatim>\<open><head><title>t</title></head>\<close> is no key of the table and
  has no node.
\<close>

lemma structure_element_no_node:
  "map_of TAG_TO_TYPE_MAP ''title'' = None"
  "compileHTMLToNodes gen m [Element ''head'' [] [Element ''title'' [] [Text ''t'']]] n0 = ([], [])"
  by (simp_all add: TAG_TO_TYPE_MAP_def eval_defs)

section \<open>The compiled list is a forest in pre-order\<close>

lemma node_new [simp]:
  "node_id (set_children (newElementNode i m nm as b) ks) = i"
  "node_children (set_children (newElementNode i m nm as b) ks) = ks"
  by (simp_all add: newElementNode_def Let_def)

lemma flat_ids:
  "map node_id (flat gen m b n d) = map gen [n..<n + weight d]"
  "map node_id (flats gen m b n ds) = map gen [n..<n + sum_list (map weight ds)]"
proof (induction gen m b n d and gen m b n ds rule: flat_flats.induct)
  case (1 gen m inside n nm as ch)
  have "[n..<n + Suc (sum_list (map weight ch))] = n # [Suc n..<Suc n + sum_list (map weight ch)]"
    by (simp add: upt_conv_Cons del: upt_Suc)
  with 1 show ?case by (simp del: upt_Suc)
next
  case (5 gen m inside n c cs)
  have "[n..<n + (weight c + sum_list (map weight cs))] =
      [n..<n + weight c] @ [n + weight c..<n + weight c + sum_list (map weight cs)]"
    by (metis add.assoc le_add1 upt_add_eq_append)
  with 5 show ?case by simp
qed simp_all

lemma flat_forest:
  "(weight d = 0 \<longrightarrow> flat gen m b n d = []) \<and> (weight d \<noteq> 0 \<longrightarrow> tree (flat gen m b n d) (gen n))"
  "forest (flats gen m b n ds) (kids gen n ds)"
proof (induction gen m b n d and gen m b n ds rule: flat_flats.induct)
  case (1 gen m inside n nm as ch)
  let ?x = "set_children (newElementNode (gen n) m nm as inside) (kids gen (Suc n) ch)"
  have "forest (flats gen m (toLowerCase nm = ''form'' \<or> inside) (Suc n) ch) (node_children ?x)"
    using 1 by simp
  from tree_Node [OF this] show ?case by simp
next
  case (2 gen m inside n d)
  have "forest [] (node_children (WebflowTextNode (gen n) (trim d)))" by (simp add: forest_Nil)
  from tree_Node [OF this] show ?case by simp
next
  case (3 gen m inside n)
  then show ?case by simp
next
  case (4 gen m inside n)
  then show ?case by (simp add: forest_Nil)
next
  case (5 gen m inside n c cs)
  show ?case
  proof (cases "weight c = 0")
    case True
    with 5 show ?thesis by simp
  next
    case False
    with 5 have "tree (flat gen m inside n c) (gen n)" by simp
    from forest_Cons [OF this 5(2)] False show ?thesis by simp
  qed
qed

lemma forest_mset:
  fixes t f :: "'id WebflowNode list"
  shows "tree t r \<Longrightarrow> mset (map node_id t) = {#r#} + mset (concat (map node_children t))"
    and "forest f rs \<Longrightarrow> mset (map node_id f) = mset rs + mset (concat (map node_children f))"
  by (induction rule: tree_forest.inducts) simp_all

lemma forest_after:
  "tree t r \<Longrightarrow> t = pre @ x # post \<Longrightarrow> set (node_children x) \<subseteq> node_id ` set post"
  "forest f rs \<Longrightarrow> f = pre @ x # post \<Longrightarrow> set (node_children x) \<subseteq> node_id ` set post"
proof (induction arbitrary: pre x post and pre x post rule: tree_forest.inducts)
  case forest_Nil
  then show ?case by simp
next
  case (forest_Cons t r f rs)
  from forest_Cons.prems consider
      (left) u where "t = pre @ x # u" "post = u @ f"
    | (right) u where "f = u @ x # post" "pre = t @ u"
    by (auto simp: append_eq_append_conv2 append_eq_Cons_conv Cons_eq_append_conv)
  then show ?case
  proof cases
    case left
    from forest_Cons.IH(1) [OF left(1)] left(2) show ?thesis by auto
  next
    case right
    from forest_Cons.IH(2) [OF right(1)] show ?thesis .
  qed
next
  case (tree_Node f y)
  show ?case
  proof (cases pre)
    case Nil
    with tree_Node.prems have xy: "x = y" "post = f" by simp_all
    from forest_mset(2) [OF tree_Node.hyps]
    have "set_mset (mset (map node_id f)) =
        set_mset (mset (node_children y) + mset (concat (map node_children f)))" by simp
    then have "set (node_children y) \<subseteq> node_id ` set f" by auto
    with xy show ?thesis by simp
  next
    case (Cons a pre')
    with tree_Node.prems have "f = pre' @ x # post" by simp
    from tree_Node.IH [OF this] show ?thesis .
  qed
qed

lemma forest_children_distinct:
  assumes "forest f rs" and "distinct (map node_id f)"
  shows "distinct (rs @ concat (map node_children f))"
proof -
  have "mset (map node_id f) = mset (rs @ concat (map node_children f))"
    using forest_mset(2) [OF assms(1)] by simp
  then show ?thesis using assms(2) by (metis mset_eq_imp_distinct_iff)
qed

lemma compile_forest:
  assumes "compileHTMLToNodes gen m doc n0 = (nodes, roots)"
  shows "forest nodes roots" and "map node_id nodes = map gen [n0..<n0 + length nodes]"
proof -
  from assms have n: "nodes = flats gen m False n0 (extractContentElements doc)"
    and r: "roots = kids gen n0 (extractContentElements doc)"
    by (simp_all add: compile_flat)
  show "forest nodes roots" unfolding n r by (rule flat_forest(2))
  have ids: "map node_id nodes = map gen [n0..<n0 + sum_list (map weight (extractContentElements doc))]"
    unfolding n by (rule flat_ids(2))
  then have "length nodes = sum_list (map weight (extractContentElements doc))"
    by (metis add_diff_cancel_left' length_map length_upt)
  with ids show "map node_id nodes = map gen [n0..<n0 + length nodes]" by simp
qed

lemma compile_distinct:
  assumes "inj gen" and "compileHTMLToNodes gen m doc n0 = (nodes, roots)"
  shows "distinct (map node_id nodes)"
proof -
  have "inj_on gen (set [n0..<n0 + length nodes])" using assms(1) by (rule inj_on_subset) simp
  then show ?thesis using compile_forest(2) [OF assms(2)] by (simp add: distinct_map)
qed

lemma child_idx_less:
  assumes "forest nodes roots" and "distinct (map node_id nodes)" and "(i, j) \<in> child_idx nodes"
  shows "i < j"
proof -
  from assms(3) have i: "i < length nodes" and j: "j < length nodes"
    and c: "node_id (nodes ! j) \<in> set (node_children (nodes ! i))"
    by (auto simp: child_idx_def)
  have "nodes = take i nodes @ nodes ! i # drop (Suc i) nodes" using i by (rule id_take_nth_drop)
  from forest_after(2) [OF assms(1) this] c
  have "node_id (nodes ! j) \<in> node_id ` set (drop (Suc i) nodes)" by auto
  then obtain k where k: "k < length (drop (Suc i) nodes)"
      "node_id (drop (Suc i) nodes ! k) = node_id (nodes ! j)"
    by (auto simp: in_set_conv_nth)
  then have kk: "Suc i + k < length nodes" "node_id (nodes ! (Suc i + k)) = node_id (nodes ! j)"
    by auto
  then have "map node_id nodes ! (Suc i + k) = map node_id nodes ! j" using j by simp
  moreover have "Suc i + k < length (map node_id nodes)" "j < length (map node_id nodes)"
    using kk(1) j by simp_all
  ultimately have "Suc i + k = j" using nth_eq_iff_index_eq [OF assms(2)] by blast
  then show ?thesis by simp
qed

text \<open>
  C1. Let the identifier generator never repeat. In the list that
  \<open>compileHTMLToNodes\<close> returns the node identifiers are distinct; the children
  lists of all nodes together name no identifier twice, so an identifier is in
  at most one children list, at most once; and a node stands strictly before
  every node reached from it through children lists.
\<close>

theorem C1_parent_first:
  assumes "inj gen" and "compileHTMLToNodes gen m doc n0 = (nodes, roots)"
  shows "distinct (map node_id nodes) \<and>
    distinct (concat (map node_children nodes)) \<and>
    (\<forall>i j. (i, j) \<in> (child_idx nodes)\<^sup>+ \<longrightarrow> i < j)"
proof (intro conjI allI impI)
  show d: "distinct (map node_id nodes)" using assms by (rule compile_distinct)
  have f: "forest nodes roots" using assms(2) by (rule compile_forest(1))
  from forest_children_distinct [OF f d] show "distinct (concat (map node_children nodes))" by simp
  fix i j assume "(i, j) \<in> (child_idx nodes)\<^sup>+"
  then show "i < j"
  proof (induction rule: trancl_induct)
    case (base y)
    then show ?case by (rule child_idx_less [OF f d])
  next
    case (step y z)
    from child_idx_less [OF f d step.hyps(2)] step.IH show ?case by simp
  qed
qed

lemma nested_result:
  "map node_children (fst (compileHTMLToNodes seq_ids no_classes nested_doc 0)) =
     [[1], [2, 4], [3], [], [5], [], [7], []]"
  "map node_id (fst (compileHTMLToNodes seq_ids no_classes nested_doc 0)) = [0, 1, 2, 3, 4, 5, 6, 7]"
  "snd (compileHTMLToNodes seq_ids no_classes nested_doc 0) = [0, 6]"
  by (simp_all add: nested_doc_def seq_ids_def compile_flat extractContentElements_def
      DOCUMENT_STRUCTURE_TAGS_def toLowerCase_def lowerChar_def Let_def trim_def trimStart_def
      trimEnd_def isWhiteSpace_def)

theorem C1_parent_first_witness:
  "inj seq_ids \<and>
   map node_children (fst (compileHTMLToNodes seq_ids no_classes nested_doc 0)) =
     [[1], [2, 4], [3], [], [5], [], [7], []] \<and>
   snd (compileHTMLToNodes seq_ids no_classes nested_doc 0) = [0, 6] \<and>
   (0, 3) \<in> (child_idx (fst (compileHTMLToNodes seq_ids no_classes nested_doc 0)))\<^sup>+ \<and>
   distinct (concat (map node_children (fst (compileHTMLToNodes seq_ids no_classes nested_doc 0))))"
proof -
  let ?r = "compileHTMLToNodes seq_ids no_classes nested_doc 0"
  have h1: "inj seq_ids" by (simp add: inj_def seq_ids_def)
  have h2: "?r = (fst ?r, snd ?r)" by simp
  note ch = nested_result(1) and ids = nested_result(2)
  have len: "length (fst ?r) = 8" using arg_cong [OF ids, of length] by simp
  have nth: "\<And>k. k < 8 \<Longrightarrow> node_id (fst ?r ! k) = map node_id (fst ?r) ! k \<and>
      node_children (fst ?r ! k) = map node_children (fst ?r) ! k"
    using len by simp
  have e01: "(0, 1) \<in> child_idx (fst ?r)" using nth [of 0] nth [of 1] len
    by (simp add: child_idx_def ids ch)
  have e12: "(1, 2) \<in> child_idx (fst ?r)" using nth [of 1] nth [of 2] len
    by (simp add: child_idx_def ids ch)
  have e23: "(2, 3) \<in> child_idx (fst ?r)" using nth [of 2] nth [of 3] len
    by (simp add: child_idx_def ids ch)
  have reach: "(0, 3) \<in> (child_idx (fst ?r))\<^sup>+"
    using e01 e12 e23 by (meson trancl.r_into_trancl trancl_trans)
  from C1_parent_first [OF h1 h2]
  have "distinct (concat (map node_children (fst ?r)))" by blast
  with h1 ch nested_result(3) reach show ?thesis by simp
qed


section \<open>The chunker on a forest\<close>

lemma find_node:
  assumes "x \<in> set nodes" and "distinct (map node_id nodes)"
  shows "find (\<lambda>n. node_id n = node_id x) nodes = Some x"
  using assms by (induction nodes) (auto simp: rev_image_eqI)

lemma tree_hd:
  assumes "tree t r"
  shows "t \<noteq> []" and "node_id (hd t) = r"
  using assms by (auto elim: tree.cases)

lemma count_forest:
  fixes t f :: "'id WebflowNode list"
  shows "tree t r \<Longrightarrow> set t \<subseteq> set nodes \<Longrightarrow> distinct (map node_id nodes) \<Longrightarrow> length t < fuel \<Longrightarrow>
      countNodesInSubtree fuel nodes r = Some (length t)"
    and "forest f rs \<Longrightarrow> set f \<subseteq> set nodes \<Longrightarrow> distinct (map node_id nodes) \<Longrightarrow> length f < fuel \<Longrightarrow>
      count_loop (\<lambda>c. countNodesInSubtree fuel nodes c) rs k = Some (k + length f)"
proof (induction arbitrary: fuel and fuel k rule: tree_forest.inducts)
  case forest_Nil
  then show ?case by simp
next
  case (forest_Cons t r f rs)
  have 1: "countNodesInSubtree fuel nodes r = Some (length t)"
    using forest_Cons.IH(1) [of fuel] forest_Cons.prems by simp
  have 2: "count_loop (\<lambda>c. countNodesInSubtree fuel nodes c) rs (k + length t) =
      Some (k + length t + length f)"
    using forest_Cons.IH(2) [of fuel "k + length t"] forest_Cons.prems by simp
  show ?case by (simp add: 1 2)
next
  case (tree_Node f x)
  from tree_Node.prems obtain fuel' where fuel: "fuel = Suc fuel'" "length f < fuel'"
    by (cases fuel) auto
  have x: "find (\<lambda>n. node_id n = node_id x) nodes = Some x"
    using tree_Node.prems by (intro find_node) auto
  have "count_loop (\<lambda>c. countNodesInSubtree fuel' nodes c) (node_children x) 1 = Some (1 + length f)"
    using tree_Node.IH [of fuel' 1] tree_Node.prems fuel by simp
  then show ?case by (simp add: fuel x)
qed

lemma collect_forest:
  fixes t f :: "'id WebflowNode list"
  shows "tree t r \<Longrightarrow> set t \<subseteq> set nodes \<Longrightarrow> distinct (map node_id nodes) \<Longrightarrow> length t < fuel \<Longrightarrow>
      collectSubtreeNodes fuel nodes r acc = Some (foldl set_add acc (map node_id t))"
    and "forest f rs \<Longrightarrow> set f \<subseteq> set nodes \<Longrightarrow> distinct (map node_id nodes) \<Longrightarrow> length f < fuel \<Longrightarrow>
      collect_loop (\<lambda>c a. collectSubtreeNodes fuel nodes c a) rs acc =
        Some (foldl set_add acc (map node_id f))"
proof (induction arbitrary: fuel acc and fuel acc rule: tree_forest.inducts)
  case forest_Nil
  then show ?case by simp
next
  case (forest_Cons t r f rs)
  have 1: "collectSubtreeNodes fuel nodes r acc = Some (foldl set_add acc (map node_id t))"
    using forest_Cons.IH(1) [of fuel acc] forest_Cons.prems by simp
  have 2: "collect_loop (\<lambda>c a. collectSubtreeNodes fuel nodes c a) rs (foldl set_add acc (map node_id t)) =
      Some (foldl set_add (foldl set_add acc (map node_id t)) (map node_id f))"
    using forest_Cons.IH(2) [of fuel] forest_Cons.prems by simp
  show ?case by (simp add: 1 2)
next
  case (tree_Node f x)
  from tree_Node.prems obtain fuel' where fuel: "fuel = Suc fuel'" "length f < fuel'"
    by (cases fuel) auto
  have x: "find (\<lambda>n. node_id n = node_id x) nodes = Some x"
    using tree_Node.prems by (intro find_node) auto
  have "collect_loop (\<lambda>c a. collectSubtreeNodes fuel' nodes c a) (node_children x)
      (set_add acc (node_id x)) = Some (foldl set_add (set_add acc (node_id x)) (map node_id f))"
    using tree_Node.IH [of fuel'] tree_Node.prems fuel by simp
  then show ?case by (simp add: fuel x)
qed

lemma foldl_set_add:
  "distinct xs \<Longrightarrow> set acc \<inter> set xs = {} \<Longrightarrow> foldl set_add acc xs = acc @ xs"
proof (induction xs arbitrary: acc)
  case Nil
  then show ?case by simp
next
  case (Cons x xs)
  have "foldl set_add (acc @ [x]) xs = (acc @ [x]) @ xs"
    using Cons.prems by (intro Cons.IH) auto
  moreover have "set_add acc x = acc @ [x]" using Cons.prems by (simp add: set_add_def)
  ultimately show ?case by simp
qed

lemma forest_trees:
  fixes t f :: "'id WebflowNode list"
  shows "tree t r \<Longrightarrow> tree t r"
    and "forest f rs \<Longrightarrow> \<exists>ts. f = concat ts \<and> list_all2 tree ts rs"
proof (induction rule: tree_forest.inducts)
  case forest_Nil
  then show ?case by simp
next
  case (forest_Cons t r f rs)
  then obtain ts where "f = concat ts" "list_all2 tree ts rs" by auto
  then have "t @ f = concat (t # ts) \<and> list_all2 tree (t # ts) (r # rs)"
    using forest_Cons.hyps(1) by simp
  then show ?case by blast
next
  case (tree_Node f x)
  then show ?case by (intro tree_forest.tree_Node)
qed

lemma filter_middle:
  assumes "distinct (map node_id (A @ M @ B))"
  shows "filter (\<lambda>n. node_id n \<in> set (map node_id M)) (A @ M @ B) = M"
proof -
  have "filter (\<lambda>n. node_id n \<in> set (map node_id M)) A = []"
    using assms by (auto simp: filter_empty_conv)
  moreover have "filter (\<lambda>n. node_id n \<in> set (map node_id M)) B = []"
    using assms by (auto simp: filter_empty_conv)
  moreover have "filter (\<lambda>n. node_id n \<in> set (map node_id M)) M = M"
    by (auto simp: filter_id_conv)
  ultimately show ?thesis by simp
qed

lemma group_concat: "concat (group_trees mx ts cur) = cur @ ts"
  by (induction ts arbitrary: cur) auto

lemma group_nonempty: "[] \<notin> set (group_trees mx ts cur)"
  by (induction ts arbitrary: cur) auto

lemma group_single:
  assumes "t \<noteq> []" and "mx < int (length t)"
  shows "[t] \<in> set (group_trees mx ts [t])"
  using assms by (cases ts) auto

lemma group_oversize:
  assumes "\<forall>u \<in> set ts \<union> set cur. u \<noteq> []" and "t \<in> set ts" and "mx < int (length t)"
  shows "[t] \<in> set (group_trees mx ts cur)"
  using assms
proof (induction ts arbitrary: cur)
  case Nil
  then show ?case by simp
next
  case (Cons u us)
  let ?flush = "length (concat cur) > 0 \<and> int (length (concat cur) + length u) > mx"
  show ?case
  proof (cases "t = u")
    case True
    have tne: "t \<noteq> []" using Cons.prems(1) True by simp
    show ?thesis
    proof (cases ?flush)
      case f: True
      with group_single [OF tne Cons.prems(3), of us] True show ?thesis by simp
    next
      case f: False
      have "int (length (concat cur) + length u) > mx" using Cons.prems(3) True by simp
      with f have "concat cur = []" by simp
      moreover have "\<forall>c \<in> set cur. c \<noteq> []" using Cons.prems(1) by simp
      ultimately have "cur = []" by (cases cur) auto
      with f group_single [OF tne Cons.prems(3), of us] True show ?thesis by simp
    qed
  next
    case False
    with Cons.prems(2) have t: "t \<in> set us" by simp
    have 1: "[t] \<in> set (group_trees mx us [u])"
      using Cons.prems(1,3) t by (intro Cons.IH) auto
    have 2: "[t] \<in> set (group_trees mx us (cur @ [u]))"
      using Cons.prems(1,3) t by (intro Cons.IH) auto
    from 1 2 show ?thesis by simp
  qed
qed

lemma splitLoop_groups:
  assumes d: "distinct (map node_id nodes)" and fuel: "length nodes < fuel"
  shows "list_all2 tree ts rs \<Longrightarrow> nodes = A @ concat curT @ concat ts @ B \<Longrightarrow>
     \<forall>t \<in> set curT. t \<noteq> [] \<Longrightarrow> \<forall>c \<in> set chunks. nodeCount c = length (chunk_nodes c) \<Longrightarrow>
     \<exists>cur' roots' idx' chunks'.
        splitLoop fuel nodes mx rs (map node_id (concat curT), curRoots, idx, chunks) =
          Some (cur', roots', idx', chunks') \<and>
        split_result nodes (cur', roots', idx', chunks') =
          map chunk_nodes chunks @ map concat (group_trees mx ts curT) \<and>
        (\<forall>c \<in> set chunks'. nodeCount c = length (chunk_nodes c))"
proof (induction ts arbitrary: rs A curT curRoots idx chunks)
  case Nil
  then have rs: "rs = []" by simp
  have f: "filter (\<lambda>n. node_id n \<in> set (map node_id (concat curT))) nodes = concat curT"
    using filter_middle [of A "concat curT" B] d Nil.prems(2) by simp
  have e: "(map node_id (concat curT) = []) = (curT = [])"
    using Nil.prems(3) by (cases curT) auto
  show ?case using Nil.prems(4) f e by (simp add: rs split_result_def)
next
  case (Cons t ts)
  from Cons.prems(1) obtain r rs' where rs: "rs = r # rs'" and tr: "tree t r"
    and rest: "list_all2 tree ts rs'"
    by (auto simp: list_all2_Cons1)
  have sub: "set t \<subseteq> set nodes" using Cons.prems(2) by auto
  have len: "length t < fuel" using Cons.prems(2) fuel by simp
  have cnt: "countNodesInSubtree fuel nodes r = Some (length t)"
    using count_forest(1) [OF tr sub d len] .
  have col: "\<And>acc. collectSubtreeNodes fuel nodes r acc = Some (foldl set_add acc (map node_id t))"
    using collect_forest(1) [OF tr sub d len] .
  have dt: "distinct (map node_id t)" using d Cons.prems(2) by simp
  have tne: "t \<noteq> []" using tr by (rule tree_hd(1))
  let ?cur = "map node_id (concat curT)"
  let ?flush = "length (concat curT) > 0 \<and> int (length (concat curT) + length t) > mx"
  let ?l = "if length curRoots = 1 then getNodeLabel nodes (hd curRoots)
            else Label (''Chunk '' @ show_nat idx)"
  let ?chunk = "makeChunk ?l (filter (\<lambda>n. node_id n \<in> set ?cur) nodes)"
  have step: "splitLoop fuel nodes mx rs (?cur, curRoots, idx, chunks) =
      (if length ?cur > 0 \<and> int (length ?cur + length t) > mx
       then splitLoop fuel nodes mx rs'
              (foldl set_add [] (map node_id t), [] @ [r], idx + 1, chunks @ [?chunk])
       else splitLoop fuel nodes mx rs'
              (foldl set_add ?cur (map node_id t), curRoots @ [r], idx, chunks))"
    by (simp add: rs cnt col Let_def del: foldl_Cons)
  have fl: "(length ?cur > 0 \<and> int (length ?cur + length t) > mx) = ?flush" by simp
  show ?case
  proof (cases ?flush)
    case True
    have run: "splitLoop fuel nodes mx rs (?cur, curRoots, idx, chunks) =
        splitLoop fuel nodes mx rs'
          (foldl set_add [] (map node_id t), [] @ [r], idx + 1, chunks @ [?chunk])"
      by (simp only: step fl True simp_thms if_True)
    have grp: "group_trees mx (t # ts) curT = curT # group_trees mx ts [t]"
      by (simp only: group_trees.simps True simp_thms if_True)
    have f: "filter (\<lambda>n. node_id n \<in> set ?cur) nodes = concat curT"
      using filter_middle [of A "concat curT" "concat (t # ts) @ B"] d Cons.prems(2) by simp
    have c2: "foldl set_add [] (map node_id t) = map node_id (concat [t])"
      using foldl_set_add [OF dt, of "[]"] by simp
    have nodes': "nodes = (A @ concat curT) @ concat [t] @ concat ts @ B"
      using Cons.prems(2) by simp
    have ne: "\<forall>u \<in> set [t]. u \<noteq> []" using tne by simp
    have ok: "\<forall>c \<in> set (chunks @ [?chunk]). nodeCount c = length (chunk_nodes c)"
      using Cons.prems(4) by (simp add: makeChunk_def)
    from Cons.IH [OF rest nodes' ne ok, of "[] @ [r]" "idx + 1"]
    obtain cur' roots' idx' chunks' where
      1: "splitLoop fuel nodes mx rs' (map node_id (concat [t]), [] @ [r], idx + 1, chunks @ [?chunk]) =
          Some (cur', roots', idx', chunks')"
      and 2: "split_result nodes (cur', roots', idx', chunks') =
          map chunk_nodes (chunks @ [?chunk]) @ map concat (group_trees mx ts [t])"
      and 3: "\<forall>c \<in> set chunks'. nodeCount c = length (chunk_nodes c)"
      by blast
    have "chunk_nodes ?chunk = concat curT" by (simp only: f) (simp add: makeChunk_def)
    then have 4: "map chunk_nodes (chunks @ [?chunk]) @ map concat (group_trees mx ts [t]) =
        map chunk_nodes chunks @ map concat (group_trees mx (t # ts) curT)"
      by (simp only: grp) simp
    show ?thesis using 1 2 3 by (simp only: run c2 4) blast
  next
    case False
    have run: "splitLoop fuel nodes mx rs (?cur, curRoots, idx, chunks) =
        splitLoop fuel nodes mx rs'
          (foldl set_add ?cur (map node_id t), curRoots @ [r], idx, chunks)"
      by (simp only: step fl False simp_thms if_False)
    have grp: "group_trees mx (t # ts) curT = group_trees mx ts (curT @ [t])"
      by (simp only: group_trees.simps False if_False)
    have "map node_id nodes =
        map node_id A @ (?cur @ map node_id t) @ map node_id (concat ts @ B)"
      by (simp add: Cons.prems(2))
    with d have "distinct (map node_id A @ (?cur @ map node_id t) @ map node_id (concat ts @ B))"
      by (simp only:)
    then have "distinct (?cur @ map node_id t)"
      by (metis distinct_append)
    then have disj: "set ?cur \<inter> set (map node_id t) = {}"
      by (metis distinct_append)
    have c2: "foldl set_add ?cur (map node_id t) = map node_id (concat (curT @ [t]))"
      using foldl_set_add [OF dt disj] by simp
    have nodes': "nodes = A @ concat (curT @ [t]) @ concat ts @ B"
      using Cons.prems(2) by simp
    have ne: "\<forall>u \<in> set (curT @ [t]). u \<noteq> []" using Cons.prems(3) tne by simp
    from Cons.IH [OF rest nodes' ne Cons.prems(4), of "curRoots @ [r]" idx]
    obtain cur' roots' idx' chunks' where
      1: "splitLoop fuel nodes mx rs' (map node_id (concat (curT @ [t])), curRoots @ [r], idx, chunks) =
          Some (cur', roots', idx', chunks')"
      and 2: "split_result nodes (cur', roots', idx', chunks') =
          map chunk_nodes chunks @ map concat (group_trees mx ts (curT @ [t]))"
      and 3: "\<forall>c \<in> set chunks'. nodeCount c = length (chunk_nodes c)"
      by blast
    show ?thesis using 1 2 3 by (simp only: run c2 grp) blast
  qed
qed

lemma rtrancl_image_unfold: "R\<^sup>* `` {a} = insert a (R\<^sup>* `` (R `` {a}))"
  by (auto elim: converse_rtranclE intro: converse_rtrancl_into_rtrancl)

lemma desc_image:
  assumes "x \<in> set nodes" and "distinct (map node_id nodes)"
  shows "desc nodes `` {node_id x} = set (node_children x)"
proof -
  have "\<And>y. y \<in> set nodes \<Longrightarrow> node_id y = node_id x \<Longrightarrow> y = x"
    using assms by (meson distinct_map inj_onD)
  then show ?thesis using assms(1) by (auto simp: desc_def)
qed

lemma subtree_forest:
  fixes t f :: "'id WebflowNode list"
  shows "tree t r \<Longrightarrow> set t \<subseteq> set nodes \<Longrightarrow> distinct (map node_id nodes) \<Longrightarrow>
      (desc nodes)\<^sup>* `` {r} = node_id ` set t"
    and "forest f rs \<Longrightarrow> set f \<subseteq> set nodes \<Longrightarrow> distinct (map node_id nodes) \<Longrightarrow>
      (desc nodes)\<^sup>* `` set rs = node_id ` set f"
proof (induction rule: tree_forest.inducts)
  case forest_Nil
  then show ?case by simp
next
  case (forest_Cons t r f rs)
  have "(desc nodes)\<^sup>* `` set (r # rs) = (desc nodes)\<^sup>* `` {r} \<union> (desc nodes)\<^sup>* `` set rs"
    by auto
  with forest_Cons show ?case by (simp add: image_Un)
next
  case (tree_Node f x)
  have "desc nodes `` {node_id x} = set (node_children x)"
    using tree_Node.prems by (intro desc_image) auto
  then have "(desc nodes)\<^sup>* `` {node_id x} = insert (node_id x) ((desc nodes)\<^sup>* `` set (node_children x))"
    using rtrancl_image_unfold [of "desc nodes" "node_id x"] by simp
  with tree_Node show ?case by simp
qed

lemma splitIntoChunks_groups:
  assumes d: "distinct (map node_id nodes)" and fuel: "length nodes < fuel"
    and ts: "nodes = concat ts" "list_all2 tree ts roots"
  shows "\<exists>chunks. splitIntoChunks fuel nodes roots mx = Some chunks \<and>
     map chunk_nodes chunks = map concat (group_trees mx ts []) \<and>
     (\<forall>c \<in> set chunks. nodeCount c = length (chunk_nodes c))"
proof -
  have n: "nodes = [] @ concat [] @ concat ts @ []" using ts(1) by simp
  have e1: "\<forall>t \<in> set ([] :: 'a WebflowNode list list). t \<noteq> []" by simp
  have e2: "\<forall>c \<in> set ([] :: 'a WebflowChunk list). nodeCount c = length (chunk_nodes c)" by simp
  from splitLoop_groups [OF d fuel ts(2) n e1 e2, of mx "[]" 1]
  obtain cur' roots' idx' chunks' where
    1: "splitLoop fuel nodes mx roots ([], [], 1, []) = Some (cur', roots', idx', chunks')"
    and 2: "split_result nodes (cur', roots', idx', chunks') = map concat (group_trees mx ts [])"
    and 3: "\<forall>c \<in> set chunks'. nodeCount c = length (chunk_nodes c)"
    by auto
  show ?thesis
  proof (cases "cur' = []")
    case True
    have "splitIntoChunks fuel nodes roots mx = Some chunks'"
      using 1 by (simp add: splitIntoChunks_def True)
    moreover have "map chunk_nodes chunks' = map concat (group_trees mx ts [])"
      using 2 True by (simp add: split_result_def)
    ultimately show ?thesis using 3 by blast
  next
    case False
    let ?l = "if length roots' = 1 then getNodeLabel nodes (hd roots')
              else if idx' = 1 then Label ''Complete Page''
              else Label (''Chunk '' @ show_nat idx')"
    let ?c = "makeChunk ?l (filter (\<lambda>n. node_id n \<in> set cur') nodes)"
    have "splitIntoChunks fuel nodes roots mx = Some (chunks' @ [?c])"
      using 1 False by (simp add: splitIntoChunks_def Let_def)
    moreover have "map chunk_nodes (chunks' @ [?c]) = map concat (group_trees mx ts [])"
      using 2 False by (simp add: split_result_def makeChunk_def)
    moreover have "\<forall>c \<in> set (chunks' @ [?c]). nodeCount c = length (chunk_nodes c)"
      using 3 by (simp add: makeChunk_def)
    ultimately show ?thesis by blast
  qed
qed

lemma concat_map_concat: "concat (map concat G) = concat (concat G)"
  by (induction G) simp_all

lemma trees_roots:
  assumes "list_all2 tree ts roots"
  shows "map (node_id \<circ> hd) ts = roots" and "\<And>t. t \<in> set ts \<Longrightarrow> tree t (node_id (hd t))"
    and "\<And>r. r \<in> set roots \<Longrightarrow> \<exists>t \<in> set ts. tree t r"
proof -
  show "map (node_id \<circ> hd) ts = roots"
    using assms by (induction rule: list_all2_induct) (simp_all add: tree_hd(2))
  show "\<And>t. t \<in> set ts \<Longrightarrow> tree t (node_id (hd t))"
    using assms by (induction rule: list_all2_induct) (auto simp: tree_hd(2))
  show "\<And>r. r \<in> set roots \<Longrightarrow> \<exists>t \<in> set ts. tree t r"
    using assms by (induction rule: list_all2_induct) auto
qed

lemma chunks_of_forest:
  assumes d: "distinct (map node_id nodes)" and f: "forest nodes roots" and fuel: "length nodes < fuel"
  shows "\<exists>chunks groups. splitIntoChunks fuel nodes roots mx = Some chunks \<and>
     concat (map chunk_nodes chunks) = nodes \<and>
     concat groups = roots \<and> length groups = length chunks \<and>
     (\<forall>k < length chunks. groups ! k \<noteq> [] \<and>
        nodeCount (chunks ! k) = length (chunk_nodes (chunks ! k)) \<and>
        node_id ` set (chunk_nodes (chunks ! k)) = (\<Union>r \<in> set (groups ! k). subtree_ids nodes r)) \<and>
     (\<forall>r \<in> set roots. mx < int (card (subtree_ids nodes r)) \<longrightarrow>
        (\<exists>c \<in> set chunks. node_id ` set (chunk_nodes c) = subtree_ids nodes r))"
proof -
  from forest_trees(2) [OF f] obtain ts where ts: "nodes = concat ts" "list_all2 tree ts roots"
    by auto
  let ?G = "group_trees mx ts []"
  from splitIntoChunks_groups [OF d fuel ts, of mx] obtain chunks where
    run: "splitIntoChunks fuel nodes roots mx = Some chunks"
    and cn: "map chunk_nodes chunks = map concat ?G"
    and cnt: "\<forall>c \<in> set chunks. nodeCount c = length (chunk_nodes c)"
    by auto
  have G: "concat ?G = ts" by (simp add: group_concat)
  have len: "length chunks = length ?G" using cn by (metis length_map)
  have nth: "\<And>k. k < length chunks \<Longrightarrow> chunk_nodes (chunks ! k) = concat (?G ! k)"
    using cn len by (metis nth_map)
  have inG: "\<And>k t. k < length ?G \<Longrightarrow> t \<in> set (?G ! k) \<Longrightarrow> t \<in> set ts"
  proof -
    fix k t assume "k < length ?G" and t: "t \<in> set (?G ! k)"
    then have "?G ! k \<in> set ?G" by simp
    with t have "t \<in> set (concat ?G)" by auto
    then show "t \<in> set ts" by (simp only: G)
  qed
  have sub: "\<And>t. t \<in> set ts \<Longrightarrow> subtree_ids nodes (node_id (hd t)) = node_id ` set t"
  proof -
    fix t assume t: "t \<in> set ts"
    have "set t \<subseteq> set nodes" using t ts(1) by auto
    from subtree_forest(1) [OF trees_roots(2) [OF ts(2) t] this d]
    show "subtree_ids nodes (node_id (hd t)) = node_id ` set t" by (simp add: subtree_ids_def)
  qed
  define groups where "groups = map (map (node_id \<circ> hd)) ?G"
  have 1: "concat (map chunk_nodes chunks) = nodes"
    by (simp only: cn concat_map_concat G ts(1))
  have 2: "concat groups = roots"
    unfolding groups_def using trees_roots(1) [OF ts(2)] G by (metis map_concat)
  have 3: "length groups = length chunks" by (simp add: groups_def len)
  have 4: "\<forall>k < length chunks. groups ! k \<noteq> [] \<and>
        nodeCount (chunks ! k) = length (chunk_nodes (chunks ! k)) \<and>
        node_id ` set (chunk_nodes (chunks ! k)) = (\<Union>r \<in> set (groups ! k). subtree_ids nodes r)"
  proof (intro allI impI conjI)
    fix k assume k: "k < length chunks"
    then have kG: "k < length ?G" by (simp add: len)
    have "?G ! k \<noteq> []" using group_nonempty [of mx ts "[]"] kG by (metis nth_mem)
    then show "groups ! k \<noteq> []" using kG by (simp add: groups_def)
    show "nodeCount (chunks ! k) = length (chunk_nodes (chunks ! k))" using cnt k by simp
    have "node_id ` set (chunk_nodes (chunks ! k)) = (\<Union>t \<in> set (?G ! k). node_id ` set t)"
      by (auto simp: nth [OF k])
    also have "\<dots> = (\<Union>t \<in> set (?G ! k). subtree_ids nodes (node_id (hd t)))"
      using sub inG [OF kG] by simp
    also have "\<dots> = (\<Union>r \<in> set (groups ! k). subtree_ids nodes r)"
      using kG by (simp add: groups_def)
    finally show "node_id ` set (chunk_nodes (chunks ! k)) = (\<Union>r \<in> set (groups ! k). subtree_ids nodes r)" .
  qed
  have 5: "\<forall>r \<in> set roots. mx < int (card (subtree_ids nodes r)) \<longrightarrow>
        (\<exists>c \<in> set chunks. node_id ` set (chunk_nodes c) = subtree_ids nodes r)"
  proof (intro ballI impI)
    fix r assume r: "r \<in> set roots" and big: "mx < int (card (subtree_ids nodes r))"
    from trees_roots(3) [OF ts(2) r] obtain t where t: "t \<in> set ts" "tree t r" by auto
    have rt: "node_id (hd t) = r" using t(2) by (rule tree_hd(2))
    have s: "subtree_ids nodes r = node_id ` set t" using sub [OF t(1)] rt by simp
    from t(1) obtain A B where "ts = A @ t # B" by (auto simp: in_set_conv_decomp)
    then have "map node_id nodes =
        map node_id (concat A) @ map node_id t @ map node_id (concat B)"
      by (simp add: ts(1))
    with d have "distinct (map node_id (concat A) @ map node_id t @ map node_id (concat B))"
      by (simp only:)
    then have "distinct (map node_id t)" by (metis distinct_append)
    then have "card (node_id ` set t) = length t" by (metis distinct_card length_map set_map)
    with big s have big': "mx < int (length t)" by simp
    have "\<And>u. u \<in> set ts \<Longrightarrow> u \<noteq> []"
      using trees_roots(2) [OF ts(2)] by (rule tree_hd(1))
    then have ne: "\<forall>u \<in> set ts \<union> set []. u \<noteq> []" by simp
    from group_oversize [OF ne t(1) big'] obtain k where k: "k < length ?G" "?G ! k = [t]"
      by (auto simp: in_set_conv_nth)
    then have "chunk_nodes (chunks ! k) = t" using nth [of k] len by simp
    moreover have "chunks ! k \<in> set chunks" using k(1) len by simp
    ultimately show "\<exists>c \<in> set chunks. node_id ` set (chunk_nodes c) = subtree_ids nodes r"
      using s by auto
  qed
  from run 1 2 3 4 5 show ?thesis by blast
qed

text \<open>
  C2 (amended). Let \<open>nodes\<close> and \<open>roots\<close> be what \<open>compileHTMLToNodes\<close> returns,
  with an identifier generator that never repeats, and let the fuel exceed the
  length of \<open>nodes\<close>. Then for every \<open>maxNodesPerChunk\<close> the call
  \<open>splitIntoChunks\<close> returns chunks whose node lists, one after the other, are
  exactly \<open>nodes\<close>: every node is in exactly one chunk and keeps its place. The
  roots fall into consecutive non-empty groups, one per chunk, and the nodes of
  a chunk are exactly the subtrees of the roots of its group; \<open>nodeCount\<close> is the
  length of the chunk. A root whose subtree is larger than the limit has a
  chunk that holds exactly that subtree.
\<close>

theorem C2_chunks_partition:
  assumes "inj gen" and "compileHTMLToNodes gen m doc n0 = (nodes, roots)"
    and "length nodes < fuel"
  shows "\<exists>chunks groups. splitIntoChunks fuel nodes roots mx = Some chunks \<and>
     concat (map chunk_nodes chunks) = nodes \<and>
     concat groups = roots \<and> length groups = length chunks \<and>
     (\<forall>k < length chunks. groups ! k \<noteq> [] \<and>
        nodeCount (chunks ! k) = length (chunk_nodes (chunks ! k)) \<and>
        node_id ` set (chunk_nodes (chunks ! k)) = (\<Union>r \<in> set (groups ! k). subtree_ids nodes r)) \<and>
     (\<forall>r \<in> set roots. mx < int (card (subtree_ids nodes r)) \<longrightarrow>
        (\<exists>c \<in> set chunks. node_id ` set (chunk_nodes c) = subtree_ids nodes r))"
proof -
  have d: "distinct (map node_id nodes)" using assms(1,2) by (rule compile_distinct)
  have f: "forest nodes roots" using assms(2) by (rule compile_forest(1))
  from d f assms(3) show ?thesis by (rule chunks_of_forest)
qed

lemma nested_chunks:
  "map (map node_id \<circ> chunk_nodes)
     (the (splitIntoChunks 9 (fst (compileHTMLToNodes seq_ids no_classes nested_doc 0))
        (snd (compileHTMLToNodes seq_ids no_classes nested_doc 0)) 3))
   = [[0, 1, 2, 3, 4, 5], [6, 7]]"
  by (simp add: nested_doc_def seq_ids_def eval_defs splitIntoChunks_def eval_nat_numeral
      set_add_def getNodeLabel_def makeChunk_def)

theorem C2_chunks_partition_witness:
  "inj seq_ids \<and>
   length (fst (compileHTMLToNodes seq_ids no_classes nested_doc 0)) < 9 \<and>
   (\<exists>chunks.
      splitIntoChunks 9 (fst (compileHTMLToNodes seq_ids no_classes nested_doc 0))
        (snd (compileHTMLToNodes seq_ids no_classes nested_doc 0)) 3 = Some chunks \<and>
      concat (map chunk_nodes chunks) = fst (compileHTMLToNodes seq_ids no_classes nested_doc 0) \<and>
      map (map node_id \<circ> chunk_nodes) chunks = [[0, 1, 2, 3, 4, 5], [6, 7]])"
proof -
  let ?r = "compileHTMLToNodes seq_ids no_classes nested_doc 0"
  have h1: "inj seq_ids" by (simp add: inj_def seq_ids_def)
  have h2: "?r = (fst ?r, snd ?r)" by simp
  have h3: "length (fst ?r) < 9" using arg_cong [OF nested_result(2), of length] by simp
  from C2_chunks_partition [OF h1 h2 h3, of 3] obtain chunks where
    c: "splitIntoChunks 9 (fst ?r) (snd ?r) 3 = Some chunks"
      "concat (map chunk_nodes chunks) = fst ?r"
    by blast
  from nested_chunks c(1) have e: "map (map node_id \<circ> chunk_nodes) chunks = [[0, 1, 2, 3, 4, 5], [6, 7]]"
    by simp
  show ?thesis
  proof (intro conjI)
    show "inj seq_ids" by (rule h1)
    show "length (fst ?r) < 9" by (rule h3)
    show "\<exists>chunks. splitIntoChunks 9 (fst ?r) (snd ?r) 3 = Some chunks \<and>
      concat (map chunk_nodes chunks) = fst ?r \<and>
      map (map node_id \<circ> chunk_nodes) chunks = [[0, 1, 2, 3, 4, 5], [6, 7]]"
      using c e by (intro exI [of _ chunks]) simp
  qed
qed

text \<open>
  C2 as stated is about every node list and root list. A node that no root
  reaches is in no chunk, and a root listed twice puts its node in two chunks.
\<close>

theorem C2_any_list_counterexample:
  "splitIntoChunks 5 [WebflowTextNode (0::nat) ''a'', WebflowTextNode 1 ''b''] [0] 100 =
     Some [\<lparr>chunk_label = Label ''Content'', chunk_nodes = [WebflowTextNode 0 ''a''], nodeCount = 1\<rparr>] \<and>
   splitIntoChunks 5 [WebflowTextNode (0::nat) ''a''] [0, 0] 1 =
     Some [\<lparr>chunk_label = Label ''Content'', chunk_nodes = [WebflowTextNode 0 ''a''], nodeCount = 1\<rparr>,
           \<lparr>chunk_label = Label ''Content'', chunk_nodes = [WebflowTextNode 0 ''a''], nodeCount = 1\<rparr>]"
  by (simp add: splitIntoChunks_def eval_nat_numeral set_add_def getNodeLabel_def makeChunk_def Let_def)


section \<open>The style compiler on given style sheets\<close>

lemmas css_eval =
  strip_comments.simps scan_matches.simps replace_all.simps match_comment_def match_rule_def
  match_decl_def match_var_def match_media_def ws_then_group_def isNameChar_def isWordChar_def
  isWhiteSpace_def trim_def trimStart_def trimEnd_def Let_def parseCSSRules_def
  extractCSSVariables_def findRuleForClass_def cleanProp_def convertToStyleLess_def
  ruleStyleLess_def parseMediaQueries_def mapMediaQueryToBreakpoint_def toLowerCase_def
  lowerChar_def

lemma cyclic_vars: "extractCSSVariables cyclic_css = [''a'' \<mapsto> ''var(--a)'']"
  by (simp add: cyclic_css_def css_eval)

lemma cyclic_rules:
  "parseCSSRules cyclic_css =
     [\<lparr>selector = '':root'', properties = [''--a: var(--a)'']\<rparr>,
      \<lparr>selector = ''.x'', properties = [''color: var(--a)'']\<rparr>]"
  by (simp add: cyclic_css_def css_eval)

lemma cyclic_value:
  assumes "vars ''a'' = Some ''var(--a)''"
  shows "resolveCSSVariables fuel ''var(--a)'' vars = None"
proof (induction fuel)
  case 0
  show ?case by simp
next
  case (Suc fuel)
  have m: "match_var ''var(--a)'' = Some ((''var(--a)'', ''a'', None), [])"
    by (simp add: match_var_def isNameChar_def isWordChar_def isWhiteSpace_def)
  show ?case by (simp add: replace_all.simps [of _ _ "''var(--a)''"] m Suc assms)
qed

lemma cyclic_property:
  assumes "vars ''a'' = Some ''var(--a)''"
  shows "resolveCSSVariables fuel ''color: var(--a)'' vars = None"
proof (cases fuel)
  case 0
  then show ?thesis by simp
next
  case (Suc f)
  show ?thesis
    by (simp add: Suc replace_all.simps match_var_def isNameChar_def isWordChar_def
        isWhiteSpace_def cyclic_value [of vars, OF assms] assms)
qed

text \<open>
  C3, at the style sheet \<^verbatim>\<open>:root { --a: var(--a); } .x { color: var(--a); }\<close>
  and the class \<open>x\<close>: whatever depth of recursion is allowed,
  \<open>parseCSSToWebflow\<close> does not return. The value of \<open>--a\<close> contains \<open>var(\<close>,
  so resolving it calls \<open>resolveCSSVariables\<close> on that same value again,
  without end.
\<close>

theorem C3_cyclic_variable_never_returns:
  "parseCSSToWebflow gen fuel cyclic_css [''x''] n0 = None"
proof -
  have "extractCSSVariables cyclic_css ''a'' = Some ''var(--a)''" by (simp add: cyclic_vars)
  from cyclic_property [of "extractCSSVariables cyclic_css", OF this] show ?thesis
    by (simp add: parseCSSToWebflow_def cyclic_rules findRuleForClass_def ruleStyleLess_def Let_def)
qed

text \<open>
  When \<open>parseCSSToWebflow\<close> returns, it returns one style record per requested
  class name, in order, with the identifiers handed out in order; the map has
  the requested names as its keys; and the record of a class that no rule
  matches has the empty declaration string.
\<close>

lemma parseLoop_result:
  "parseLoop gen fuel vars rules cs (n, m, styles) = Some (n', m', styles') \<Longrightarrow>
     n' = n + length cs \<and> dom m' = dom m \<union> set cs \<and>
     (\<exists>new. styles' = styles @ new \<and> map style_name new = cs \<and>
        map style_id new = map gen [n..<n + length cs] \<and>
        (\<forall>k < length cs. findRuleForClass rules (cs ! k) = None \<longrightarrow> styleLess (new ! k) = []))"
proof (induction cs arbitrary: n m styles)
  case Nil
  then show ?case by simp
next
  case (Cons c cs)
  let ?m = "m(c \<mapsto> gen n)"
  obtain sl where sl: "(findRuleForClass rules c = None \<longrightarrow> sl = [])"
    and run: "parseLoop gen fuel vars rules cs
        (Suc n, ?m, styles @ [\<lparr>style_id = gen n, style_name = c, styleLess = sl, variants = []\<rparr>])
        = Some (n', m', styles')"
    using Cons.prems by (auto simp: Let_def split: option.splits)
  let ?s = "\<lparr>style_id = gen n, style_name = c, styleLess = sl, variants = []\<rparr>"
  from Cons.IH [OF run] obtain new where
    n': "n' = Suc n + length cs" and d: "dom m' = dom ?m \<union> set cs"
    and new: "styles' = (styles @ [?s]) @ new" "map style_name new = cs"
      "map style_id new = map gen [Suc n..<Suc n + length cs]"
      "\<forall>k < length cs. findRuleForClass rules (cs ! k) = None \<longrightarrow> styleLess (new ! k) = []"
    by blast
  have up: "[n..<n + length (c # cs)] = n # [Suc n..<Suc n + length cs]"
    by (simp add: upt_conv_Cons del: upt_Suc)
  have "styles' = styles @ (?s # new) \<and> map style_name (?s # new) = c # cs \<and>
      map style_id (?s # new) = map gen [n..<n + length (c # cs)] \<and>
      (\<forall>k < length (c # cs). findRuleForClass rules ((c # cs) ! k) = None \<longrightarrow>
         styleLess ((?s # new) ! k) = [])"
    using new sl by (simp only: up) (auto simp: nth_Cons split: nat.splits)
  then show ?case using n' d by (intro conjI exI [of _ "?s # new"]) auto
qed

lemma parseCSSToWebflow_result:
  assumes "parseCSSToWebflow gen fuel css classNames n0 = Some (m, styles)"
  shows "map style_name styles = classNames"
    and "map style_id styles = map gen [n0..<n0 + length classNames]"
    and "dom m = set classNames"
    and "\<forall>k < length classNames.
           findRuleForClass (parseCSSRules css) (classNames ! k) = None \<longrightarrow> styleLess (styles ! k) = []"
proof -
  from assms obtain n' where
    "parseLoop gen fuel (extractCSSVariables css) (parseCSSRules css) classNames (n0, Map.empty, [])
       = Some (n', m, styles)"
    by (auto simp: parseCSSToWebflow_def Let_def split: option.splits)
  from parseLoop_result [OF this]
  show "map style_name styles = classNames"
    and "map style_id styles = map gen [n0..<n0 + length classNames]"
    and "dom m = set classNames"
    and "\<forall>k < length classNames.
           findRuleForClass (parseCSSRules css) (classNames ! k) = None \<longrightarrow> styleLess (styles ! k) = []"
    by auto
qed

section \<open>Media queries\<close>

lemma indented_rules:
  "parseCSSRules indented_media_css =
     [\<lparr>selector = ''.t'', properties = [''color: red'']\<rparr>,
      \<lparr>selector = ''@media (max-width: 767px)'', properties = [''.t {\<newline>      color: blue'']\<rparr>]"
  by (simp add: indented_media_css_def css_eval)

lemma indented_media: "parseMediaQueries indented_media_css = []"
  by (simp add: indented_media_css_def css_eval)

lemma no_var_property: "resolveCSSVariables (Suc fuel) ''color: red'' vars = Some ''color: red''"
  by (simp add: replace_all.simps match_var_def)

text \<open>
  C9, at the style sheet of the repository's test of
  \<open>parseCSSWithMediaQueries\<close>, reduced to one declaration per rule and laid
  out as there, each line indented: the style of \<open>t\<close> has the base declaration
  string and no variant at all. The pattern for a media block ends in a line
  feed directly followed by the closing brace, and in this layout white space
  stands between them.
\<close>

theorem C9_indented_media_no_variant:
  "map_option snd (parseCSSWithMediaQueries gen (Suc fuel) indented_media_css [''t''] n0) =
     Some [\<lparr>style_id = gen n0, style_name = ''t'', styleLess = ''color: red'', variants = []\<rparr>]"
  by (simp add: parseCSSWithMediaQueries_def indented_rules indented_media findRuleForClass_def
      ruleStyleLess_def no_var_property convertToStyleLess_def cleanProp_def trim_def trimStart_def
      trimEnd_def isWhiteSpace_def Let_def del: resolveCSSVariables.simps)

text \<open>
  With the closing brace of the media block at the start of its line, the same
  style sheet gives the variant for the breakpoint \<open>small\<close>, held apart from
  the base declaration string.
\<close>

lemma flush_rules:
  "parseCSSRules flush_media_css =
     [\<lparr>selector = ''.t'', properties = [''color: red'']\<rparr>,
      \<lparr>selector = ''@media (max-width: 767px)'', properties = [''.t {\<newline>    color: blue'']\<rparr>]"
  by (simp add: flush_media_css_def css_eval)

lemma flush_media:
  "parseMediaQueries flush_media_css = [(''small'', [\<lparr>selector = ''.t'', properties = [''color: blue'']\<rparr>])]"
  by (simp add: flush_media_css_def css_eval)

lemma no_var_property2: "resolveCSSVariables (Suc fuel) ''color: blue'' vars = Some ''color: blue''"
  by (simp add: replace_all.simps match_var_def)

lemma flush_media_variant:
  "map_option snd (parseCSSWithMediaQueries gen (Suc fuel) flush_media_css [''t''] n0) =
     Some [\<lparr>style_id = gen n0, style_name = ''t'', styleLess = ''color: red'',
            variants = [(''small'', ''color: blue'')]\<rparr>]"
  by (simp add: parseCSSWithMediaQueries_def flush_rules flush_media findRuleForClass_def
      ruleStyleLess_def no_var_property no_var_property2 convertToStyleLess_def cleanProp_def
      trim_def trimStart_def trimEnd_def isWhiteSpace_def Let_def del: resolveCSSVariables.simps)


section \<open>Resolving references to custom properties\<close>

lemma paren_chars:
  "\<not> isNameChar CHR '')''" "\<not> isNameChar CHR '',''" "\<not> isWhiteSpace CHR '')''"
  "\<not> isWhiteSpace CHR '',''" "\<not> isWhiteSpace CHR ''-''"
  by (simp_all add: isNameChar_def isWordChar_def isWhiteSpace_def)

lemma match_var_plain:
  assumes "nm \<noteq> []" and "\<forall>c \<in> set nm. isNameChar c"
  shows "match_var (''var(--'' @ nm @ '')'' @ post) =
     Some ((''var(--'' @ nm @ '')'', nm, None), post)"
proof -
  have tw: "takeWhile isNameChar (nm @ CHR '')'' # post) = nm"
    using assms(2) paren_chars(1) by (simp add: takeWhile_append2)
  have dw: "dropWhile isNameChar (nm @ CHR '')'' # post) = CHR '')'' # post"
    using assms(2) paren_chars(1) by (simp add: dropWhile_append2)
  show ?thesis
    using assms(1) by (simp add: match_var_def paren_chars tw dw eval_nat_numeral)
qed

lemma ws_group_fallback:
  assumes "fb \<noteq> []" and "CHR '')'' \<notin> set fb"
  shows "\<exists>g. ws_then_group CHR '')'' (fb @ '')'' @ post) = Some (g, post) \<and> trim g = trim fb"
proof (cases "dropWhile isWhiteSpace fb = []")
  case True
  then have all: "\<forall>c \<in> set fb. isWhiteSpace c" by (simp add: dropWhile_eq_Nil_conv)
  then have tw: "takeWhile isWhiteSpace (fb @ CHR '')'' # post) = fb"
    using paren_chars(3) by (simp add: takeWhile_append2)
  have dw: "dropWhile isWhiteSpace (fb @ CHR '')'' # post) = CHR '')'' # post"
    using all paren_chars(3) by (simp add: dropWhile_append2)
  have "isWhiteSpace (last fb)" using all assms(1) by simp
  then have t1: "trim [last fb] = []" by (simp add: trim_def trimStart_def trimEnd_def)
  have t2: "trim fb = []" by (simp add: trim_def trimStart_def trimEnd_def True)
  show ?thesis using assms(1) by (simp add: ws_then_group_def tw dw t1 t2)
next
  case False
  let ?g = "dropWhile isWhiteSpace fb"
  obtain c where c: "c \<in> set fb" "\<not> isWhiteSpace c"
    using False by (auto simp: dropWhile_eq_Nil_conv)
  have dw: "dropWhile isWhiteSpace (fb @ CHR '')'' # post) = ?g @ CHR '')'' # post"
    using c by (simp add: dropWhile_append1)
  have np: "\<forall>x \<in> set ?g. x \<noteq> CHR '')''"
  proof
    fix x assume "x \<in> set ?g"
    then have "x \<in> set fb" by (rule set_dropWhileD)
    with assms(2) show "x \<noteq> CHR '')''" by auto
  qed
  have g1: "takeWhile (\<lambda>c. c \<noteq> CHR '')'') (?g @ CHR '')'' # post) = ?g"
    using np by (simp add: takeWhile_append2)
  have g2: "dropWhile (\<lambda>c. c \<noteq> CHR '')'') (?g @ CHR '')'' # post) = CHR '')'' # post"
    using np by (simp add: dropWhile_append2)
  have t: "trim ?g = trim fb" by (simp add: trim_def trimStart_def)
  show ?thesis using False by (simp add: ws_then_group_def dw g1 g2 t)
qed

lemma match_var_fallback:
  assumes "nm \<noteq> []" and "\<forall>c \<in> set nm. isNameChar c" and "fb \<noteq> []" and "CHR '')'' \<notin> set fb"
  shows "\<exists>g. match_var (''var(--'' @ nm @ '','' @ fb @ '')'' @ post) =
       Some ((''var(--'' @ nm @ '','' @ fb @ '')'', nm, Some g), post) \<and> trim g = trim fb"
proof -
  have tw: "takeWhile isNameChar (nm @ CHR '','' # fb @ CHR '')'' # post) = nm"
    using assms(2) paren_chars(2) by (simp add: takeWhile_append2)
  have dw: "dropWhile isNameChar (nm @ CHR '','' # fb @ CHR '')'' # post) = CHR '','' # fb @ CHR '')'' # post"
    using assms(2) paren_chars(2) by (simp add: dropWhile_append2)
  from ws_group_fallback [OF assms(3,4), of post] obtain g where
    g: "ws_then_group CHR '')'' (fb @ CHR '')'' # post) = Some (g, post)" "trim g = trim fb"
    by auto
  show ?thesis
    using assms(1) g by (simp add: match_var_def paren_chars tw dw eval_nat_numeral)
qed

lemma no_match_before:
  assumes "\<not> startsWith (c # pre) ''var(''"
  shows "match_var (c # pre @ ''var(--'' @ rest) = None"
proof -
  have "\<not> startsWith (c # pre @ ''var(--'' @ rest) ''var(''"
  proof (cases pre)
    case Nil
    then show ?thesis by simp
  next
    case (Cons p1 pre1)
    show ?thesis
    proof (cases pre1)
      case Nil
      with Cons show ?thesis by simp
    next
      case (Cons p2 pre2)
      note c2 = Cons
      show ?thesis
      proof (cases pre2)
        case Nil
        with \<open>pre = p1 # pre1\<close> c2 show ?thesis by simp
      next
        case (Cons p3 pre3)
        with \<open>pre = p1 # pre1\<close> c2 assms show ?thesis by auto
      qed
    qed
  qed
  then show ?thesis by (simp only: match_var_def if_False)
qed

lemma replace_all_skip:
  assumes "\<not> str_includes pre ''var(''"
  shows "replace_all match_var f (pre @ ''var(--'' @ rest) =
     map_option ((@) pre) (replace_all match_var f (''var(--'' @ rest))"
  using assms
proof (induction pre)
  case Nil
  show ?case by (simp add: option.map_ident)
next
  case (Cons c pre)
  from Cons.prems have ns: "\<not> startsWith (c # pre) ''var(''" and ni: "\<not> str_includes pre ''var(''"
    by simp_all
  have n: "match_var (c # pre @ ''var(--'' @ rest) = None"
    using ns by (rule no_match_before)
  have "replace_all match_var f (c # pre @ ''var(--'' @ rest) =
      map_option ((#) c) (replace_all match_var f (pre @ ''var(--'' @ rest))"
    by (subst replace_all.simps) (simp only: n option.case list.case)
  then have "replace_all match_var f ((c # pre) @ ''var(--'' @ rest) =
      map_option ((#) c) (replace_all match_var f (pre @ ''var(--'' @ rest))"
    by (simp only: append_Cons)
  also have "\<dots> = map_option ((#) c) (map_option ((@) pre) (replace_all match_var f (''var(--'' @ rest)))"
    using Cons.IH [OF ni] by (simp only:)
  finally show ?case by (simp only: option.map_comp comp_def append_Cons)
qed

lemma replace_all_none:
  assumes "\<not> str_includes s ''var(''"
  shows "replace_all match_var f s = Some s"
  using assms
proof (induction s)
  case Nil
  show ?case by (simp add: replace_all.simps match_var_def)
next
  case (Cons c s)
  from Cons.prems have ns: "\<not> startsWith (c # s) ''var(''" and ni: "\<not> str_includes s ''var(''"
    by simp_all
  from ns have n: "match_var (c # s) = None" by (simp only: match_var_def if_False)
  have "replace_all match_var f (c # s) = map_option ((#) c) (replace_all match_var f s)"
    by (subst replace_all.simps) (simp only: n option.case list.case)
  with Cons.IH [OF ni] show ?case by simp
qed

lemma resolve_reference:
  assumes m: "match_var (''var(--'' @ rest) = Some ((matched, nm, fbo), post)"
    and len: "length post < length (''var(--'' @ rest)"
    and pre: "\<not> str_includes pre ''var(''"
  shows "resolveCSSVariables (Suc fuel) (pre @ ''var(--'' @ rest) vars =
     (case (case vars nm of
              Some val \<Rightarrow> if str_includes val ''var('' then resolveCSSVariables fuel val vars else Some val
            | None \<Rightarrow> (case fbo of Some fb \<Rightarrow> Some (trim fb) | None \<Rightarrow> Some matched)) of
        None \<Rightarrow> None
      | Some r1 \<Rightarrow> map_option (\<lambda>r. pre @ r1 @ r) (resolveCSSVariables (Suc fuel) post vars))"
proof -
  let ?f = "\<lambda>(matched, varName, fallback).
          case vars varName of
            Some val \<Rightarrow>
              if str_includes val ''var('' then resolveCSSVariables fuel val vars
              else Some val
          | None \<Rightarrow>
              (case fallback of
                 Some fb \<Rightarrow> Some (trim fb)
               | None \<Rightarrow> Some matched)"
  have r: "\<And>s. resolveCSSVariables (Suc fuel) s vars = replace_all match_var ?f s" by simp
  have "replace_all match_var ?f (''var(--'' @ rest) =
      (case ?f (matched, nm, fbo) of None \<Rightarrow> None
       | Some r1 \<Rightarrow> map_option ((@) r1) (replace_all match_var ?f post))"
    using len by (subst replace_all.simps) (simp only: m option.case prod.case if_True)
  then show ?thesis
    by (simp only: r replace_all_skip [OF pre])
       (simp add: option.map_comp comp_def split: option.splits del: resolveCSSVariables.simps)
qed

lemma root_vars: "extractCSSVariables root_css = [''c'' \<mapsto> ''red'']"
  by (simp add: root_css_def css_eval)

lemma root_rules:
  "parseCSSRules root_css =
     [\<lparr>selector = '':root'', properties = [''--c: red'']\<rparr>,
      \<lparr>selector = ''.x'', properties = [''color: var(--c)'']\<rparr>]"
  by (simp add: root_css_def css_eval)

lemma resolve_empty: "resolveCSSVariables (Suc fuel) [] vars = Some []"
  by (simp add: replace_all.simps match_var_def)

text \<open>
  The first reference of a declaration. Let a declaration hold a reference
  \<open>var(--name)\<close> after a text that holds no \<open>var(\<close>. Resolving the declaration
  replaces the reference: by the value of \<open>name\<close> in the table when that value
  holds no \<open>var(\<close>; by the resolution of that value, one level deeper, when it
  does; and by the reference itself, as literal text, when the table has no
  \<open>name\<close>. The rest of the declaration is resolved in the same way. For a
  reference with a fallback that holds no closing parenthesis,
  \<open>var(--name,fallback)\<close>, the same holds except that an unknown \<open>name\<close> gives
  the trimmed fallback. A declaration that holds no \<open>var(\<close> is left as it is.
\<close>

lemma resolve_first_reference:
  assumes "nm \<noteq> []" and "\<forall>c \<in> set nm. isNameChar c" and "\<not> str_includes pre ''var(''"
  shows
    "resolveCSSVariables (Suc fuel) (pre @ ''var(--'' @ nm @ '')'' @ post) vars =
       (case (case vars nm of
                Some val \<Rightarrow>
                  if str_includes val ''var('' then resolveCSSVariables fuel val vars else Some val
              | None \<Rightarrow> Some (''var(--'' @ nm @ '')'')) of
          None \<Rightarrow> None
        | Some r1 \<Rightarrow> map_option (\<lambda>r. pre @ r1 @ r) (resolveCSSVariables (Suc fuel) post vars))"
    and
    "fb \<noteq> [] \<and> CHR '')'' \<notin> set fb \<longrightarrow>
        resolveCSSVariables (Suc fuel) (pre @ ''var(--'' @ nm @ '','' @ fb @ '')'' @ post) vars =
          (case (case vars nm of
                   Some val \<Rightarrow>
                     if str_includes val ''var('' then resolveCSSVariables fuel val vars else Some val
                 | None \<Rightarrow> Some (trim fb)) of
             None \<Rightarrow> None
           | Some r1 \<Rightarrow> map_option (\<lambda>r. pre @ r1 @ r) (resolveCSSVariables (Suc fuel) post vars))"
proof -
  have m: "match_var (''var(--'' @ (nm @ '')'' @ post)) =
      Some ((''var(--'' @ nm @ '')'', nm, None), post)"
    using match_var_plain [OF assms(1,2)] by simp
  have len: "length post < length (''var(--'' @ (nm @ '')'' @ post))" by simp
  from resolve_reference [OF m len assms(3), of fuel vars]
  show "resolveCSSVariables (Suc fuel) (pre @ ''var(--'' @ nm @ '')'' @ post) vars =
       (case (case vars nm of
                Some val \<Rightarrow>
                  if str_includes val ''var('' then resolveCSSVariables fuel val vars else Some val
              | None \<Rightarrow> Some (''var(--'' @ nm @ '')'')) of
          None \<Rightarrow> None
        | Some r1 \<Rightarrow> map_option (\<lambda>r. pre @ r1 @ r) (resolveCSSVariables (Suc fuel) post vars))"
    by (cases "vars nm") (simp_all del: resolveCSSVariables.simps)
  show "fb \<noteq> [] \<and> CHR '')'' \<notin> set fb \<longrightarrow>
        resolveCSSVariables (Suc fuel) (pre @ ''var(--'' @ nm @ '','' @ fb @ '')'' @ post) vars =
          (case (case vars nm of
                   Some val \<Rightarrow>
                     if str_includes val ''var('' then resolveCSSVariables fuel val vars else Some val
                 | None \<Rightarrow> Some (trim fb)) of
             None \<Rightarrow> None
           | Some r1 \<Rightarrow> map_option (\<lambda>r. pre @ r1 @ r) (resolveCSSVariables (Suc fuel) post vars))"
  proof
    assume "fb \<noteq> [] \<and> CHR '')'' \<notin> set fb"
    then have fb: "fb \<noteq> []" "CHR '')'' \<notin> set fb" by simp_all
    from match_var_fallback [OF assms(1,2) fb, of post] obtain g where
      m: "match_var (''var(--'' @ (nm @ '','' @ fb @ '')'' @ post)) =
        Some ((''var(--'' @ nm @ '','' @ fb @ '')'', nm, Some g), post)"
      and g: "trim g = trim fb"
      by auto
    have len: "length post < length (''var(--'' @ (nm @ '','' @ fb @ '')'' @ post))" by simp
    from resolve_reference [OF m len assms(3), of fuel vars]
    show "resolveCSSVariables (Suc fuel) (pre @ ''var(--'' @ nm @ '','' @ fb @ '')'' @ post) vars =
          (case (case vars nm of
                   Some val \<Rightarrow>
                     if str_includes val ''var('' then resolveCSSVariables fuel val vars else Some val
                 | None \<Rightarrow> Some (trim fb)) of
             None \<Rightarrow> None
           | Some r1 \<Rightarrow> map_option (\<lambda>r. pre @ r1 @ r) (resolveCSSVariables (Suc fuel) post vars))"
      by (cases "vars nm") (simp_all add: g del: resolveCSSVariables.simps)
  qed
qed

lemma resolve_no_reference:
  "\<not> str_includes property ''var('' \<Longrightarrow> resolveCSSVariables (Suc fuel) property vars = Some property"
  by (simp add: replace_all_none)

text \<open>
  The example of the specification: for
  \<^verbatim>\<open>:root { --c: red; }  .x { color: var(--c); }\<close> the declaration string of
  class \<open>x\<close> is \<open>color: red\<close>.
\<close>

lemma root_css_resolved:
  "map_option (map styleLess \<circ> snd) (parseCSSToWebflow gen (Suc fuel) root_css [''x''] n0) =
     Some [''color: red'']"
proof -
  have v: "extractCSSVariables root_css ''c'' = Some ''red''" by (simp add: root_vars)
  have "resolveCSSVariables (Suc fuel) ''color: var(--c)'' (extractCSSVariables root_css) =
      Some ''color: red''"
    by (simp add: replace_all.simps match_var_def isNameChar_def isWordChar_def
        isWhiteSpace_def v)
  then show ?thesis
    by (simp add: parseCSSToWebflow_def root_rules findRuleForClass_def ruleStyleLess_def Let_def
        convertToStyleLess_def cleanProp_def trim_def trimStart_def trimEnd_def isWhiteSpace_def
        del: resolveCSSVariables.simps)
qed

lemma fallback_vars: "extractCSSVariables fallback_css = [''c'' \<mapsto> ''red'']"
  by (simp add: fallback_css_def css_eval)

lemma fallback_rules:
  "parseCSSRules fallback_css =
     [\<lparr>selector = '':root'', properties = [''--c: red'']\<rparr>,
      \<lparr>selector = ''.x'', properties = [''color: var(--c, rgb(0,0,0))'']\<rparr>]"
  by (simp add: fallback_css_def css_eval)

text \<open>
  C6. A fallback that holds a closing parenthesis is cut there: the pattern
  takes \<open>[^)]+\<close> for the fallback, so the reference that it finds in
  \<open>var(--c, rgb(0,0,0))\<close> ends before the last parenthesis. For the style
  sheet \<^verbatim>\<open>:root { --c: red; } .x { color: var(--c, rgb(0,0,0)); }\<close> the
  declaration string of class \<open>x\<close> is \<open>color: red)\<close>, not \<open>color: red\<close>: the
  reference is not resolved to the value of \<open>c\<close> in the \<open>:root\<close> table.
\<close>

theorem C6_fallback_parenthesis:
  "map_option (map styleLess \<circ> snd) (parseCSSToWebflow gen (Suc fuel) fallback_css [''x''] n0) =
     Some [''color: red)'']"
proof -
  have v: "extractCSSVariables fallback_css ''c'' = Some ''red''" by (simp add: fallback_vars)
  have "resolveCSSVariables (Suc fuel) ''color: var(--c, rgb(0,0,0))'' (extractCSSVariables fallback_css) =
      Some ''color: red)''"
    by (simp add: replace_all.simps match_var_def ws_then_group_def isNameChar_def isWordChar_def
        isWhiteSpace_def Let_def v)
  then show ?thesis
    by (simp add: parseCSSToWebflow_def fallback_rules findRuleForClass_def ruleStyleLess_def Let_def
        convertToStyleLess_def cleanProp_def trim_def trimStart_def trimEnd_def isWhiteSpace_def
        del: resolveCSSVariables.simps)
qed

text \<open>
  The same cut leaves a reference inside a fallback unresolved, although its
  name is in the table.
\<close>

lemma fallback_reference_unresolved:
  "resolveCSSVariables (Suc fuel) ''color: var(--x, var(--y))'' [''y'' \<mapsto> ''blue''] =
     Some ''color: var(--y)''"
  by (simp add: replace_all.simps match_var_def ws_then_group_def isNameChar_def isWordChar_def
      isWhiteSpace_def Let_def trim_def trimStart_def trimEnd_def)

end
